theory Spec2Isabelle
  imports Complex_Main
begin

section \<open>Python values used by visuals.py\<close>

text \<open>
  Exceptions are values. Only the class matters to the code: \<open>batch_export\<close> catches
  \<open>ValueError\<close> and nothing else, \<open>models[0]\<close> raises \<open>IndexError\<close> on an empty list
  and \<open>r[t][key]\<close> raises \<open>KeyError\<close> on a missing key.
\<close>

datatype error = ValueError string | IndexError | KeyError string

text \<open>
  A Python float is an IEEE-754 binary64 number. \<open>PyFloat m e\<close> stands for the value
  \<open>m * 2 ^ e\<close>; infinities, NaN and subnormal numbers do not occur in the quantities
  visuals.py computes (fractions and percentages) and are not represented.
\<close>

datatype pyfloat = PyFloat int int

text \<open>One snapshot of \<open>states_per_time\<close>: a dict from state name to count.\<close>

type_synonym snapshot = "string \<rightharpoonup> int"

text \<open>\<open>range(n)\<close> for an int \<open>n\<close>: empty when \<open>n \<le> 0\<close>.\<close>

definition py_range :: "int \<Rightarrow> int list" where
  "py_range n = [0..n - 1]"

text \<open>\<open>int.bit_length()\<close>: the number of binary digits of a positive int.\<close>

fun bit_length :: "int \<Rightarrow> nat" where
  "bit_length n = (if n \<le> 0 then 0 else Suc (bit_length (n div 2)))"

declare bit_length.simps [simp del]

text \<open>The integer nearest to \<open>p / q\<close> (for \<open>p \<ge> 0\<close>, \<open>q > 0\<close>), ties to the even one:
  the rounding of every binary64 operation.\<close>

definition round_half_even :: "int \<Rightarrow> int \<Rightarrow> int" where
  "round_half_even p q =
     (let m = p div q; r = p mod q
      in if 2 * r > q \<or> (2 * r = q \<and> odd m) then m + 1 else m)"

text \<open>
  The binary64 number nearest to \<open>p / q\<close> (\<open>p \<ge> 0\<close>, \<open>q > 0\<close>): what Python reads a
  decimal literal as (\<open>0.1\<close> is \<open>float_of_ratio 1 10\<close>). \<open>l\<close> is
  \<open>floor (log2 (p / q))\<close>, so the quotient scaled by \<open>2 ^ - e\<close> has 53 binary digits before
  it is rounded.
\<close>

definition float_of_ratio :: "int \<Rightarrow> int \<Rightarrow> pyfloat" where
  "float_of_ratio p q =
     (if p = 0 then PyFloat 0 0
      else
        (let d = int (bit_length p) - int (bit_length q);
             l = (if (if d \<ge> 0 then p \<ge> q * 2 ^ nat d else p * 2 ^ nat (- d) \<ge> q)
                  then d else d - 1);
             e = l - 52
         in if e \<ge> 0 then PyFloat (round_half_even p (q * 2 ^ nat e)) e
            else PyFloat (round_half_even (p * 2 ^ nat (- e)) q) e))"

text \<open>The binary64 number nearest to \<open>m * 2 ^ e\<close>.\<close>

definition float_round :: "int \<Rightarrow> int \<Rightarrow> pyfloat" where
  "float_round m e =
     (case (if e \<ge> 0 then float_of_ratio (\<bar>m\<bar> * 2 ^ nat e) 1
            else float_of_ratio \<bar>m\<bar> (2 ^ nat (- e))) of
        PyFloat m' e' \<Rightarrow> PyFloat (sgn m * m') e')"

text \<open>\<open>x * y\<close> on floats: the exact product, rounded once.\<close>

fun float_mul :: "pyfloat \<Rightarrow> pyfloat \<Rightarrow> pyfloat" where
  "float_mul (PyFloat m1 e1) (PyFloat m2 e2) = float_round (m1 * m2) (e1 + e2)"

text \<open>\<open>float(n)\<close> for an int, and \<open>int(x)\<close> for a float (truncation towards zero).\<close>

definition float_of_int :: "int \<Rightarrow> pyfloat" where
  "float_of_int n = float_round n 0"

fun int_of_float :: "pyfloat \<Rightarrow> int" where
  "int_of_float (PyFloat m e) =
     (if e \<ge> 0 then m * 2 ^ nat e else sgn m * (\<bar>m\<bar> div 2 ^ nat (- e)))"

text \<open>\<open>str(i)\<close> for an int, as an f-string prints it.\<close>

definition digit :: "nat \<Rightarrow> char" where
  "digit d = ''0123456789'' ! d"

fun str_nat :: "nat \<Rightarrow> string" where
  "str_nat n = (if n < 10 then [digit n] else str_nat (n div 10) @ [digit (n mod 10)])"

declare str_nat.simps [simp del]

definition str_int :: "int \<Rightarrow> string" where
  "str_int i = (if i < 0 then CHR ''-'' # str_nat (nat (- i)) else str_nat (nat i))"

text \<open>\<open>xs[i]\<close>: a negative index counts from the end, an index out of range raises.\<close>

definition py_index :: "'a list \<Rightarrow> int \<Rightarrow> error + 'a" where
  "py_index xs i =
     (let j = (if i < 0 then i + int (length xs) else i)
      in if j < 0 \<or> int (length xs) \<le> j then Inl IndexError else Inr (xs ! nat j))"

text \<open>\<open>d.get(k, default)\<close>.\<close>

definition dict_get :: "('k \<rightharpoonup> 'v) \<Rightarrow> 'k \<Rightarrow> 'v \<Rightarrow> 'v" where
  "dict_get d k dflt = (case d k of None \<Rightarrow> dflt | Some v \<Rightarrow> v)"

text \<open>
  A loop that evaluates one fallible expression per iteration and appends its value:
  \<open>collect\<close> is the list built when no iteration raises, and the first exception
  otherwise; \<open>collected_before\<close> is what had been appended when it was raised.
\<close>

fun collect :: "(error + 'a) list \<Rightarrow> error + 'a list" where
  "collect [] = Inr []"
| "collect (Inl e # rs) = Inl e"
| "collect (Inr x # rs) = (case collect rs of Inl e \<Rightarrow> Inl e | Inr xs \<Rightarrow> Inr (x # xs))"

fun collected_before :: "(error + 'a) list \<Rightarrow> 'a list" where
  "collected_before [] = []"
| "collected_before (Inl e # rs) = []"
| "collected_before (Inr x # rs) = x # collected_before rs"

section \<open>The NetworkModel class, as visuals.py uses it\<close>

text \<open>The keyword arguments of the constructor call in \<open>create_models\<close>.\<close>

record model_args =
  seed :: "int option"
  network_seed :: int
  num_nodes :: int
  initial_outbreak_proportion :: pyfloat
  mode :: string
  prep_amount :: pyfloat

text \<open>
  network_model.py is not among the sources, so the three members of the class that
  visuals.py touches are parameters of every function below: the constructor (which may
  raise), \<open>m.step()\<close> (which mutates the model in place and may raise, so it returns the
  model as it is left together with the exception, if any) and the attribute
  \<open>m.states_per_time\<close>.
\<close>

record 'm engine =
  NetworkModel :: "model_args \<Rightarrow> error + 'm"
  step :: "'m \<Rightarrow> 'm \<times> error option"
  states_per_time :: "'m \<Rightarrow> snapshot list"

section \<open>The session: module globals and Tk variables\<close>

text \<open>
  A CSV file as \<open>csv.writer\<close> is given it: the header row and the data rows, each cell
  the Python value that was appended to the row.
\<close>

datatype cell = IntCell int | StrCell string | FloatCell pyfloat

record csv_file =
  header :: "string list"
  rows :: "cell list list"

text \<open>
  The globals \<open>running\<close>, \<open>t\<close> and \<open>models\<close>, and the Tk variables the functions read.
  The global \<open>model\<close> is an alias of \<open>models[0]\<close> that only the drawing code reads, so it is
  not a field; the \<open>IndexError\<close> of \<open>model = models[0]\<close> is kept. Drawing
  (\<open>redraw\<close>, \<open>redraw_stats\<close>, \<open>window.title\<close>, \<open>window.update\<close>) changes none of these
  fields and is left out. \<open>pending_ticks\<close> counts the \<open>tick\<close> callbacks registered with
  \<open>window.after\<close>. \<open>written\<close> is the part of the file system the program writes: every
  \<open>open(filepath, "w")\<close> with the path and the content, oldest first (a later entry with
  the same path has replaced the earlier file). The Tk variables hold numbers: an entry
  whose text is not a number is outside this model.
\<close>

record 'm session =
  running :: bool
  t :: int
  models :: "'m list"
  pending_ticks :: nat
  written :: "(string \<times> csv_file) list"
  num_nodes_input :: int
  delay_input :: int
  initial_outbreak_prop_input :: pyfloat
  seed_input :: int
  use_seed_var :: bool
  network_seed_input :: int
  max_t_input :: int
  iterations_input :: int
  steps_per_update_input :: int
  prep_amount_input :: pyfloat
  mode_var :: string

section \<open>create_models\<close>

text \<open>The arguments of the constructor call for loop index \<open>i\<close>.\<close>

definition model_args_at :: "'m session \<Rightarrow> int \<Rightarrow> model_args" where
  "model_args_at s i =
     \<lparr> seed = (if use_seed_var s then Some (seed_input s + i) else None),
       network_seed = network_seed_input s,
       num_nodes = num_nodes_input s,
       initial_outbreak_proportion = initial_outbreak_prop_input s,
       mode = mode_var s,
       prep_amount = prep_amount_input s \<rparr>"

text \<open>The loop \<open>for i in range(k): models.append(NetworkModel(...))\<close>; the first
  constructor that raises ends it and the exception leaves \<open>create_models\<close>.\<close>

definition create_models :: "'m engine \<Rightarrow> 'm session \<Rightarrow> error + 'm list" where
  "create_models E s =
     (let k = iterations_input s
      in collect (map (\<lambda>i. NetworkModel E (model_args_at s i)) (py_range k)))"

section \<open>step_once and tick\<close>

text \<open>The loop \<open>for m in models: m.step()\<close>. The models are mutated in place, so when
  a step raises, the models stepped before it stay stepped.\<close>

fun step_models :: "'m engine \<Rightarrow> 'm list \<Rightarrow> 'm list \<times> error option" where
  "step_models E [] = ([], None)"
| "step_models E (m # ms) =
     (case step E m of
        (m', Some e) \<Rightarrow> (m' # ms, Some e)
      | (m', None) \<Rightarrow> (case step_models E ms of (ms', r) \<Rightarrow> (m' # ms', r)))"

definition step_once :: "'m engine \<Rightarrow> 'm session \<Rightarrow> error option \<times> 'm session" where
  "step_once E s =
     (if t s \<ge> max_t_input s then (None, s)
      else (case step_models E (models s) of
              (ms, Some e) \<Rightarrow> (Some e, s\<lparr>models := ms\<rparr>)
            | (ms, None) \<Rightarrow> (None, s\<lparr>models := ms, t := t s + 1\<rparr>)))"

text \<open>The loop \<open>for _ in range(steps)\<close> of \<open>tick\<close>, with its \<open>break\<close>.\<close>

fun tick_loop :: "'m engine \<Rightarrow> nat \<Rightarrow> 'm session \<Rightarrow> error option \<times> 'm session" where
  "tick_loop E 0 s = (None, s)"
| "tick_loop E (Suc n) s =
     (case step_models E (models s) of
        (ms, Some e) \<Rightarrow> (Some e, s\<lparr>models := ms\<rparr>)
      | (ms, None) \<Rightarrow>
          (let s' = s\<lparr>models := ms, t := t s + 1\<rparr>
           in if \<not> running s' then (None, s') else tick_loop E n s'))"

definition tick :: "'m engine \<Rightarrow> 'm session \<Rightarrow> error option \<times> 'm session" where
  "tick E s =
     (if \<not> running s \<or> t s \<ge> max_t_input s then (None, s)
      else
        (let max_t = max_t_input s;
             steps_per_update = max 1 (steps_per_update_input s);
             steps = min steps_per_update (max_t - t s)
         in case tick_loop E (nat steps) s of
              (Some e, s') \<Rightarrow> (Some e, s')
            | (None, s') \<Rightarrow> (None, s'\<lparr>pending_ticks := pending_ticks s' + 1\<rparr>)))"

definition start_animation :: "'m engine \<Rightarrow> 'm session \<Rightarrow> error option \<times> 'm session" where
  "start_animation E s =
     (if running s then (None, s) else tick E (s\<lparr>running := True\<rparr>))"

definition stop_animation :: "'m session \<Rightarrow> 'm session" where
  "stop_animation s = s\<lparr>running := False\<rparr>"

section \<open>apply_settings and reset_model\<close>

text \<open>
  Both assign \<open>running\<close> and \<open>t\<close> before they call \<open>create_models\<close>; an exception of
  \<open>create_models\<close>, or the \<open>IndexError\<close> of \<open>model = models[0]\<close> when there is no run,
  leaves the function with the assignments made so far in place.
\<close>

definition rebuild :: "'m engine \<Rightarrow> 'm session \<Rightarrow> error option \<times> 'm session" where
  "rebuild E s =
     (case create_models E s of
        Inl e \<Rightarrow> (Some e, s)
      | Inr ms \<Rightarrow>
          (let s' = s\<lparr>models := ms\<rparr>
           in case py_index ms 0 of Inl e \<Rightarrow> (Some e, s') | Inr m \<Rightarrow> (None, s')))"

definition apply_settings :: "'m engine \<Rightarrow> 'm session \<Rightarrow> error option \<times> 'm session" where
  "apply_settings E s = rebuild E (s\<lparr>running := False, t := 0\<rparr>)"



section \<open>export_csv_raw_runs\<close>

definition KEYS :: "string list" where
  "KEYS = [''susceptible'', ''acute'', ''chronic'', ''aids'', ''dead'']"

text \<open>\<open>int(prep * 100)\<close>, in float arithmetic.\<close>

definition prep_pct_of :: "pyfloat \<Rightarrow> int" where
  "prep_pct_of prep = int_of_float (float_mul prep (float_of_int 100))"

definition export_filename ::
  "string \<Rightarrow> int \<Rightarrow> int \<Rightarrow> int \<Rightarrow> int \<Rightarrow> int \<Rightarrow> string \<Rightarrow> string" where
  "export_filename mode_name prep_pct max_week nodes net_seed iters timestamp =
     mode_name @ ''_prep'' @ str_int prep_pct @ ''_weeks'' @ str_int max_week
       @ ''_nodes'' @ str_int nodes @ ''_netseed'' @ str_int net_seed
       @ ''_iters'' @ str_int iters @ ''_RAW__'' @ timestamp @ ''.csv''"

text \<open>\<open>data_dir / filename\<close> for a directory and a name without separators.\<close>

definition path_join :: "string \<Rightarrow> string \<Rightarrow> string" where
  "path_join dir name = dir @ ''/'' @ name"

definition export_header :: "int \<Rightarrow> string list" where
  "export_header num_runs =
     [''week'', ''mode'', ''prep'']
       @ concat (map (\<lambda>run_idx. map (\<lambda>k. k @ ''_'' @ str_int (run_idx + 1)) KEYS)
                     (py_range num_runs))"

text \<open>\<open>{k: 0 for k in KEYS}\<close>.\<close>

definition zero_snapshot :: snapshot where
  "zero_snapshot = map_of (map (\<lambda>k. (k, 0)) KEYS)"

text \<open>The body of \<open>for r in runs\<close>: the five cells one run adds to the row.\<close>

definition run_cells :: "snapshot list \<Rightarrow> int \<Rightarrow> error + cell list" where
  "run_cells r week =
     (case (if week < int (length r) then py_index r week else Inr zero_snapshot) of
        Inl e \<Rightarrow> Inl e
      | Inr d \<Rightarrow> Inr (map (\<lambda>k. IntCell (dict_get d k 0)) KEYS))"

definition export_row ::
  "string \<Rightarrow> pyfloat \<Rightarrow> snapshot list list \<Rightarrow> int \<Rightarrow> error + cell list" where
  "export_row mode_name prep runs week =
     (case collect (map (\<lambda>r. run_cells r week) runs) of
        Inl e \<Rightarrow> Inl e
      | Inr cs \<Rightarrow> Inr ([IntCell week, StrCell mode_name, FloatCell prep] @ concat cs))"

text \<open>
  \<open>now\<close> is the clock: \<open>now n\<close> is what
  \<open>datetime.now().strftime("%Y%m%d_%H%M%S")\<close> returns to the export that follows \<open>n\<close>
  earlier ones. The file is opened, and so replaced, before the rows are computed; when a
  row raises, the file keeps the header and the rows written before it.
\<close>

definition export_csv_raw_runs ::
  "'m engine \<Rightarrow> (nat \<Rightarrow> string) \<Rightarrow> string option \<Rightarrow> 'm session \<Rightarrow> error option \<times> 'm session" where
  "export_csv_raw_runs E now output_dir s =
     (let data_dir = (case output_dir of None \<Rightarrow> ''sim_results'' | Some d \<Rightarrow> d);
          mode = mode_var s;
          prep = prep_amount_input s;
          max_week = t s;
          prep_pct = prep_pct_of prep;
          nodes = num_nodes_input s;
          net_seed = network_seed_input s;
          iters = iterations_input s;
          timestamp = now (length (written s));
          filename = export_filename mode prep_pct max_week nodes net_seed iters timestamp;
          filepath = path_join data_dir filename;
          runs = map (states_per_time E) (models s);
          num_runs = int (length runs);
          T = max_week + 1;
          hd_row = export_header num_runs;
          results = map (export_row mode prep runs) (py_range T)
      in case collect results of
           Inl e \<Rightarrow>
             (Some e, s\<lparr>written := written s
                @ [(filepath, \<lparr>header = hd_row, rows = collected_before results\<rparr>)]\<rparr>)
         | Inr rs \<Rightarrow>
             (None, s\<lparr>written := written s @ [(filepath, \<lparr>header = hd_row, rows = rs\<rparr>)]\<rparr>))"

text \<open>
  The exporter in closed form, for the statements below (the lemma
  \<open>export_csv_raw_runs_eq\<close> proves that \<open>export_csv_raw_runs\<close> computes exactly this):
  the count written for run history \<open>r\<close>, week \<open>w\<close> and state \<open>k\<close>, the data row of week
  \<open>w\<close>, and the path of the file.
\<close>

definition exported_count :: "snapshot list \<Rightarrow> nat \<Rightarrow> string \<Rightarrow> int" where
  "exported_count r w k = (if w < length r then dict_get (r ! w) k 0 else 0)"

definition exported_row :: "string \<Rightarrow> pyfloat \<Rightarrow> snapshot list list \<Rightarrow> nat \<Rightarrow> cell list" where
  "exported_row m p runs w =
     [IntCell (int w), StrCell m, FloatCell p]
       @ concat (map (\<lambda>r. map (\<lambda>k. IntCell (exported_count r w k)) KEYS) runs)"

definition export_path :: "(nat \<Rightarrow> string) \<Rightarrow> string option \<Rightarrow> 'm session \<Rightarrow> string" where
  "export_path now output_dir s =
     path_join (case output_dir of None \<Rightarrow> ''sim_results'' | Some d \<Rightarrow> d)
       (export_filename (mode_var s) (prep_pct_of (prep_amount_input s)) (t s)
          (num_nodes_input s) (network_seed_input s) (iterations_input s)
          (now (length (written s))))"

section \<open>batch_export\<close>

text \<open>The values of the block marked "EDIT THESE VALUES ONLY".\<close>

record batch_cfg =
  cfg_prep_values :: "pyfloat list"
  cfg_modes :: "string list"
  cfg_max_t :: int
  cfg_iterations :: int
  cfg_num_nodes :: int
  cfg_network_seed :: int

definition source_cfg :: batch_cfg where
  "source_cfg =
     \<lparr> cfg_prep_values = map (\<lambda>n. float_of_ratio n 10) [1, 2, 3, 4, 5, 6, 7, 8, 9, 10],
       cfg_modes = [''standard''],
       cfg_max_t = 520,
       cfg_iterations = 50,
       cfg_num_nodes = 1000,
       cfg_network_seed = 67 \<rparr>"

text \<open>The loop \<open>while t < max_t: for m in models: m.step(); t += 1\<close>.\<close>

function batch_steps :: "'m engine \<Rightarrow> int \<Rightarrow> 'm session \<Rightarrow> error option \<times> 'm session" where
  "batch_steps E max_t s =
     (if t s < max_t
      then (case step_models E (models s) of
              (ms, Some e) \<Rightarrow> (Some e, s\<lparr>models := ms\<rparr>)
            | (ms, None) \<Rightarrow> batch_steps E max_t (s\<lparr>models := ms, t := t s + 1\<rparr>))
      else (None, s))"
  by pat_completeness auto
termination
  by (relation "measure (\<lambda>(E, max_t, s). nat (max_t - t s))") auto

declare batch_steps.simps [simp del]

text \<open>The body of the \<open>try\<close> statement.\<close>

definition batch_try ::
  "'m engine \<Rightarrow> (nat \<Rightarrow> string) \<Rightarrow> int \<Rightarrow> string \<Rightarrow> 'm session \<Rightarrow> error option \<times> 'm session" where
  "batch_try E now max_t mode_dir s =
     (case rebuild E s of
        (Some e, s1) \<Rightarrow> (Some e, s1)
      | (None, s1) \<Rightarrow>
          (case batch_steps E max_t s1 of
             (Some e, s2) \<Rightarrow> (Some e, s2)
           | (None, s2) \<Rightarrow> export_csv_raw_runs E now (Some mode_dir) s2))"

text \<open>The \<open>try\<close> statement with its handler \<open>except ValueError\<close>, which prints and goes
  on; any other exception leaves \<open>batch_export\<close>.\<close>

definition batch_job ::
  "'m engine \<Rightarrow> (nat \<Rightarrow> string) \<Rightarrow> int \<Rightarrow> string \<Rightarrow> 'm session \<Rightarrow> error option \<times> 'm session" where
  "batch_job E now max_t mode_dir s =
     (case batch_try E now max_t mode_dir s of
        (Some (ValueError msg), s') \<Rightarrow> (None, s')
      | r \<Rightarrow> r)"

text \<open>The loop \<open>for prep_val in prep_values\<close>.\<close>

fun batch_preps ::
  "'m engine \<Rightarrow> (nat \<Rightarrow> string) \<Rightarrow> int \<Rightarrow> string \<Rightarrow> pyfloat list \<Rightarrow> 'm session
     \<Rightarrow> error option \<times> 'm session" where
  "batch_preps E now max_t mode_dir [] s = (None, s)"
| "batch_preps E now max_t mode_dir (prep_val # rest) s =
     (case batch_job E now max_t mode_dir (s\<lparr>prep_amount_input := prep_val, t := 0\<rparr>) of
        (Some e, s') \<Rightarrow> (Some e, s')
      | (None, s') \<Rightarrow> batch_preps E now max_t mode_dir rest s')"

text \<open>The loop \<open>for mode in modes\<close>.\<close>

fun batch_modes ::
  "'m engine \<Rightarrow> (nat \<Rightarrow> string) \<Rightarrow> batch_cfg \<Rightarrow> string list \<Rightarrow> 'm session
     \<Rightarrow> error option \<times> 'm session" where
  "batch_modes E now c [] s = (None, s)"
| "batch_modes E now c (mode_name # rest) s =
     (let mode_dir = path_join ''data'' mode_name
      in case batch_preps E now (cfg_max_t c) mode_dir (cfg_prep_values c)
                (s\<lparr>mode_var := mode_name\<rparr>) of
           (Some e, s') \<Rightarrow> (Some e, s')
         | (None, s') \<Rightarrow> batch_modes E now c rest s')"

definition batch_run ::
  "'m engine \<Rightarrow> (nat \<Rightarrow> string) \<Rightarrow> batch_cfg \<Rightarrow> 'm session \<Rightarrow> error option \<times> 'm session" where
  "batch_run E now c s =
     batch_modes E now c (cfg_modes c)
       (s\<lparr> running := False,
           max_t_input := cfg_max_t c,
           iterations_input := cfg_iterations c,
           num_nodes_input := cfg_num_nodes c,
           network_seed_input := cfg_network_seed c \<rparr>)"

definition batch_export ::
  "'m engine \<Rightarrow> (nat \<Rightarrow> string) \<Rightarrow> 'm session \<Rightarrow> error option \<times> 'm session" where
  "batch_export E now s = batch_run E now source_cfg s"

section \<open>plot_states\<close>

text \<open>
  The statistics of numpy on an array of floats, in exact rational arithmetic (the counts
  are integers far below \<open>2 ^ 53\<close>, and the quantile fractions are multiples of a quarter,
  so no float operation here rounds). \<open>np.median\<close> is the middle of the sorted values or
  the mean of the two middle ones. \<open>np.quantile\<close> with its default method takes the
  virtual index \<open>q * (n - 1)\<close> into the sorted values and interpolates linearly between
  the two neighbours (\<open>lerp_at\<close>).
\<close>

definition np_median :: "rat list \<Rightarrow> rat" where
  "np_median xs =
     (let s = sort xs; n = length s
      in if odd n then s ! (n div 2) else (s ! (n div 2 - 1) + s ! (n div 2)) / 2)"

definition lerp_at :: "rat list \<Rightarrow> rat \<Rightarrow> rat" where
  "lerp_at s h =
     (let i = nat \<lfloor>h\<rfloor>;
          g = h - of_nat i;
          lo = s ! i;
          hi = s ! min (i + 1) (length s - 1)
      in lo + (hi - lo) * g)"

definition np_quantile :: "rat list \<Rightarrow> rat \<Rightarrow> rat" where
  "np_quantile xs q = lerp_at (sort xs) (q * of_nat (length xs - 1))"


text \<open>\<open>d[k]\<close> on a dict: a missing key raises \<open>KeyError\<close>.\<close>

definition dict_item :: "(string \<rightharpoonup> 'v) \<Rightarrow> string \<Rightarrow> error + 'v" where
  "dict_item d k = (case d k of None \<Rightarrow> Inl (KeyError k) | Some v \<Rightarrow> Inr v)"

text \<open>The argument \<open>data\<close>: the history of one run (a list of dicts) or a list of
  histories; \<open>isinstance(data[0], dict)\<close> tells them apart.\<close>

datatype plot_data = OneRun "snapshot list" | ManyRuns "snapshot list list"

text \<open>What one iteration of \<open>for key in keys\<close> draws: the median line and the band
  between the quartiles over the weeks \<open>0 .. T - 1\<close>.\<close>

record series =
  series_key :: string
  timesteps :: "nat list"
  median_line :: "rat list"
  band_low :: "rat list"
  band_high :: "rat list"

text \<open>\<open>np.array([[r[t][key] for t in range(T)] for r in runs], dtype=float)\<close>.\<close>

definition plot_vals :: "snapshot list list \<Rightarrow> nat \<Rightarrow> string \<Rightarrow> error + rat list list" where
  "plot_vals runs T key =
     collect (map (\<lambda>r. collect (map (\<lambda>w.
         (case py_index r (int w) of
            Inl e \<Rightarrow> Inl e
          | Inr d \<Rightarrow> (case dict_item d key of
                        Inl e \<Rightarrow> Inl e
                      | Inr v \<Rightarrow> Inr (of_int v)))) [0..<T])) runs)"

text \<open>The statistics along \<open>axis=0\<close>: one value per week, over the runs.\<close>

definition plot_key :: "snapshot list list \<Rightarrow> nat \<Rightarrow> string \<Rightarrow> error + series" where
  "plot_key runs T key =
     (case plot_vals runs T key of
        Inl e \<Rightarrow> Inl e
      | Inr vals \<Rightarrow>
          Inr \<lparr> series_key = key,
                timesteps = [0..<T],
                median_line = map (\<lambda>w. np_median (map (\<lambda>row. row ! w) vals)) [0..<T],
                band_low = map (\<lambda>w. np_quantile (map (\<lambda>row. row ! w) vals) (1 / 4)) [0..<T],
                band_high = map (\<lambda>w. np_quantile (map (\<lambda>row. row ! w) vals) (3 / 4)) [0..<T] \<rparr>)"

text \<open>\<open>plot_states\<close> clears the axes and returns what it has drawn on them; it takes the
  histories and returns no run and no session.\<close>

definition plot_states :: "plot_data \<Rightarrow> string list \<Rightarrow> error + series list" where
  "plot_states data keys =
     (if (case data of OneRun r \<Rightarrow> r = [] | ManyRuns rs \<Rightarrow> rs = []) then Inr []
      else
        (let runs = (case data of OneRun r \<Rightarrow> [r] | ManyRuns rs \<Rightarrow> rs);
             T = min_list (map length runs)
         in if T = 0 then Inr [] else collect (map (plot_key runs T) keys)))"

text \<open>\<open>redraw_stats\<close>: the four axes with their keys.\<close>

definition PLOT_KEYS :: "string list list" where
  "PLOT_KEYS = [[''susceptible''], [''acute''], [''chronic'', ''acute''], [''aids'', ''dead'']]"

definition redraw_stats :: "'m engine \<Rightarrow> 'm session \<Rightarrow> error + series list list" where
  "redraw_stats E s =
     collect (map (plot_states (ManyRuns (map (states_per_time E) (models s)))) PLOT_KEYS)"

text \<open>The counts of state \<open>key\<close> at week \<open>w\<close> across the runs, as floats.\<close>

definition counts_at :: "snapshot list list \<Rightarrow> string \<Rightarrow> nat \<Rightarrow> rat list" where
  "counts_at runs key w = map (\<lambda>r. of_int (the ((r ! w) key))) runs"

section \<open>The simulation engine, from its specification\<close>

text \<open>
  Modelled from the spec: the class \<open>NetworkModel\<close> of network_model.py, which is not
  among the sources. A node has one of five states and the demographic attributes of
  section 3 of the specification.
\<close>

datatype state = Susceptible | Acute | Chronic | AIDS | Dead

datatype sex = Male | Female

datatype orientation = Homosexual | Heterosexual | Bisexual

record node =
  state :: state
  sex :: sex
  orientation :: orientation
  prep_covered :: bool
  time_in_state :: nat

text \<open>
  Modelled from the spec: a Run (section 3), which is the graph's nodes, the \<open>time\<close>
  counter and \<open>states_per_time\<close>, with the arguments it was constructed from. The edges are
  static and enter only through the epidemic process, which is a parameter below.
\<close>

record run =
  run_args :: model_args
  nodes :: "node list"
  time :: nat
  run_states_per_time :: "snapshot list"

text \<open>
  Modelled from the spec: the seeded random draws of the Network Builder, the Intervention
  Assigner and the Epidemic Process (sections 4.1 to 4.3) are parameters. \<open>initial_node a i\<close>
  is node \<open>i\<close> as built for the constructor arguments \<open>a\<close> (attributes, coverage and the
  initial outbreak); \<open>next_node a w ns i\<close> is node \<open>i\<close> after the step of week \<open>w\<close>,
  computed from the previous nodes \<open>ns\<close>.
\<close>

record dynamics =
  initial_node :: "model_args \<Rightarrow> nat \<Rightarrow> node"
  next_node :: "model_args \<Rightarrow> nat \<Rightarrow> node list \<Rightarrow> nat \<Rightarrow> node"

text \<open>Modelled from the spec: a snapshot maps each of the five state names to the number
  of nodes in that state (sections 3 and 6).\<close>

definition count_state :: "node list \<Rightarrow> state \<Rightarrow> int" where
  "count_state ns st = int (length (filter (\<lambda>n. state n = st) ns))"

definition snapshot_of :: "node list \<Rightarrow> snapshot" where
  "snapshot_of ns =
     map_of [(''susceptible'', count_state ns Susceptible),
             (''acute'', count_state ns Acute),
             (''chronic'', count_state ns Chronic),
             (''aids'', count_state ns AIDS),
             (''dead'', count_state ns Dead)]"

text \<open>Modelled from the spec: the mode strings of section 4.2, as the mode menu of
  visuals.py lists them.\<close>

definition known_modes :: "string list" where
  "known_modes =
     [''standard'', ''random'',
      ''targeted_m_homo'', ''targeted_m_hetero'', ''targeted_m_bi'',
      ''targeted_f_homo'', ''targeted_f_hetero'', ''targeted_f_bi'',
      ''targeted_homosexual'', ''targeted_heterosexual'', ''targeted_bisexual'',
      ''targeted_male'', ''targeted_female'']"

text \<open>
  Modelled from the spec: construction (sections 4.1, 6 and 7). It fails with the
  condition InvalidTopology when \<open>num_nodes < 1\<close> and with UnknownMode on a mode string
  that is not one of the modes; the batch exporter is to catch configuration errors, which
  visuals.py does with \<open>except ValueError\<close>, so both are \<open>ValueError\<close>s. Otherwise the run
  has \<open>num_nodes\<close> nodes, time 0 and the week-0 snapshot.
\<close>

definition NetworkModel_spec :: "dynamics \<Rightarrow> model_args \<Rightarrow> error + run" where
  "NetworkModel_spec D a =
     (if num_nodes a < 1 then Inl (ValueError ''InvalidTopology'')
      else if mode a \<notin> set known_modes then Inl (ValueError ''UnknownMode'')
      else
        (let ns = map (initial_node D a) [0..<nat (num_nodes a)]
         in Inr \<lparr> run_args = a, nodes = ns, time = 0,
                  run_states_per_time = [snapshot_of ns] \<rparr>))"

text \<open>
  Modelled from the spec: \<open>step()\<close> (section 4.4) advances \<open>time\<close> by 1, applies the
  epidemic process to every node, each new node computed from the previous snapshot of all
  nodes, and appends one snapshot. It has no error.
\<close>

definition step_spec :: "dynamics \<Rightarrow> run \<Rightarrow> run" where
  "step_spec D r =
     (let ns = map (next_node D (run_args r) (time r) (nodes r)) [0..<length (nodes r)]
      in r\<lparr> nodes := ns, time := time r + 1,
            run_states_per_time := run_states_per_time r @ [snapshot_of ns] \<rparr>)"

definition spec_engine :: "dynamics \<Rightarrow> run engine" where
  "spec_engine D =
     \<lparr> NetworkModel = NetworkModel_spec D,
       step = (\<lambda>r. (step_spec D r, None)),
       states_per_time = run_states_per_time \<rparr>"

text \<open>
  A small deterministic instance of the parameters, used to evaluate the theorems on
  concrete sessions: node 0 starts Acute, the others Susceptible, and every infected node
  moves on one stage per week.
\<close>

fun progress :: "state \<Rightarrow> state" where
  "progress Susceptible = Susceptible"
| "progress Acute = Chronic"
| "progress Chronic = AIDS"
| "progress AIDS = Dead"
| "progress Dead = Dead"

definition demo_dynamics :: dynamics where
  "demo_dynamics =
     \<lparr> initial_node = (\<lambda>a i. \<lparr> state = (if i = 0 then Acute else Susceptible), sex = Male,
                               orientation = Heterosexual, prep_covered = False,
                               time_in_state = 0 \<rparr>),
       next_node = (\<lambda>a w ns i. (ns ! i)\<lparr> state := progress (state (ns ! i)) \<rparr>) \<rparr>"

text \<open>The session of the module's last lines with these settings: nothing running,
  week 0, no model yet, nothing written.\<close>

definition demo_session :: "run session" where
  "demo_session =
     \<lparr> running = False, t = 0, models = [], pending_ticks = 0, written = [],
       num_nodes_input = 3, delay_input = 50,
       initial_outbreak_prop_input = float_of_ratio 11 100,
       seed_input = 42, use_seed_var = True, network_seed_input = 67,
       max_t_input = 2, iterations_input = 2, steps_per_update_input = 10,
       prep_amount_input = float_of_ratio 1 10, mode_var = ''standard'' \<rparr>"

text \<open>The demo session after Apply Settings, and after one Step.\<close>

definition demo_ready :: "run session" where
  "demo_ready = snd (apply_settings (spec_engine demo_dynamics) demo_session)"

definition demo_week1 :: "run session" where
  "demo_week1 = snd (step_once (spec_engine demo_dynamics) demo_ready)"




text \<open>The path of the file that a batch job writes into \<open>dir\<close> for prep value \<open>p\<close>, in week
  \<open>w\<close> and at clock reading \<open>ts\<close>, under the settings of \<open>s\<close>.\<close>

definition job_file :: "string \<Rightarrow> 'm session \<Rightarrow> pyfloat \<Rightarrow> int \<Rightarrow> string \<Rightarrow> string" where
  "job_file dir s p w ts =
     path_join dir
       (export_filename (mode_var s) (prep_pct_of p) w (num_nodes_input s)
          (network_seed_input s) (iterations_input s) ts)"

section \<open>Invariants\<close>



section \<open>Lemmas on the Python values\<close>

lemma collect_map_Inr: "collect (map Inr xs) = Inr xs"
  by (induction xs) simp_all



lemma py_range_conv: "py_range n = map int [0..<nat n]"
  by (rule nth_equalityI) (simp_all add: py_range_def)



lemma collect_map_Inr_comp: "collect (map (Inr \<circ> f) xs) = Inr (map f xs)"
  using collect_map_Inr [of "map f xs"] by simp

lemma dict_get_zero_snapshot: "dict_get zero_snapshot k 0 = 0"
proof (cases "zero_snapshot k")
  case None
  then show ?thesis by (simp add: dict_get_def)
next
  case (Some v)
  then have "(k, v) \<in> set (map (\<lambda>k. (k, 0)) KEYS)"
    unfolding zero_snapshot_def by (rule map_of_SomeD)
  then have "v = 0" by auto
  with Some show ?thesis by (simp add: dict_get_def)
qed

lemma run_cells_eq:
  "run_cells r (int w) = Inr (map (\<lambda>k. IntCell (exported_count r w k)) KEYS)"
  by (simp add: run_cells_def py_index_def exported_count_def dict_get_zero_snapshot)

lemma export_row_eq: "export_row m p runs (int w) = Inr (exported_row m p runs w)"
proof -
  have "map (\<lambda>r. run_cells r (int w)) runs
      = map Inr (map (\<lambda>r. map (\<lambda>k. IntCell (exported_count r w k)) KEYS) runs)"
    by (simp add: run_cells_eq)
  then show ?thesis
    by (simp only: export_row_def exported_row_def collect_map_Inr sum.case)
qed

lemma export_csv_raw_runs_eq:
  "export_csv_raw_runs E now output_dir s =
     (None, s\<lparr>written := written s @
        [(export_path now output_dir s,
          \<lparr>header = export_header (int (length (models s))),
           rows = map (exported_row (mode_var s) (prep_amount_input s)
                          (map (states_per_time E) (models s)))
                      [0..<nat (t s + 1)]\<rparr>)]\<rparr>)"
proof -
  have "map (export_row (mode_var s) (prep_amount_input s) (map (states_per_time E) (models s)))
          (py_range (t s + 1))
      = map Inr (map (exported_row (mode_var s) (prep_amount_input s)
                          (map (states_per_time E) (models s))) [0..<nat (t s + 1)])"
    by (simp add: py_range_conv export_row_eq)
  then show ?thesis
    by (simp add: export_csv_raw_runs_def export_path_def Let_def collect_map_Inr_comp)
qed


lemma nth_concat_blocks:
  "\<forall>xs\<in>set xss. length xs = n \<Longrightarrow> i < length xss \<Longrightarrow> j < n
     \<Longrightarrow> concat xss ! (n * i + j) = xss ! i ! j"
proof (induction xss arbitrary: i)
  case Nil
  then show ?case by simp
next
  case (Cons xs xss)
  show ?case
  proof (cases i)
    case 0
    with Cons.prems show ?thesis by (simp add: nth_append)
  next
    case (Suc i')
    with Cons.prems have "concat xss ! (n * i' + j) = xss ! i' ! j"
      by (intro Cons.IH) simp_all
    moreover have "n * i + j = length xs + (n * i' + j)"
      using Suc Cons.prems by simp
    ultimately show ?thesis using Suc by (simp only: concat.simps nth_append_length_plus nth_Cons_Suc)
  qed
qed

lemma length_concat_blocks:
  "\<forall>xs\<in>set xss. length xs = n \<Longrightarrow> length (concat xss) = n * length xss"
  by (induction xss) simp_all

lemma length_KEYS: "length KEYS = 5"
  by (simp add: KEYS_def)

lemma exported_row_nth:
  assumes "i < length runs" "j < 5"
  shows "exported_row m p runs w ! (3 + 5 * i + j) = IntCell (exported_count (runs ! i) w (KEYS ! j))"
proof -
  let ?xss = "map (\<lambda>r. map (\<lambda>k. IntCell (exported_count r w k)) KEYS) runs"
  have "concat ?xss ! (5 * i + j) = ?xss ! i ! j"
    using assms by (intro nth_concat_blocks) (simp_all add: length_KEYS)
  moreover have "exported_row m p runs w ! (3 + (5 * i + j)) = concat ?xss ! (5 * i + j)"
    unfolding exported_row_def
    using nth_append_length_plus [of "[IntCell (int w), StrCell m, FloatCell p]" "concat ?xss" "5 * i + j"]
    by simp
  ultimately show ?thesis using assms by (simp add: length_KEYS add.assoc)
qed

lemma exported_row_take: "take 3 (exported_row m p runs w) = [IntCell (int w), StrCell m, FloatCell p]"
  by (simp add: exported_row_def)

lemma length_exported_row: "length (exported_row m p runs w) = 3 + 5 * length runs"
proof -
  have "length (concat (map (\<lambda>r. map (\<lambda>k. IntCell (exported_count r w k)) KEYS) runs)) = 5 * length runs"
    using length_concat_blocks [of "map (\<lambda>r. map (\<lambda>k. IntCell (exported_count r w k)) KEYS) runs" 5]
    by (simp add: length_KEYS)
  then show ?thesis by (simp add: exported_row_def)
qed

lemma export_header_conv:
  "export_header (int n) = [''week'', ''mode'', ''prep'']
       @ concat (map (\<lambda>i. map (\<lambda>k. k @ ''_'' @ str_int (int i + 1)) KEYS) [0..<n])"
  by (simp add: export_header_def py_range_conv comp_def)

lemma export_header_nth:
  assumes "i < n" "j < 5"
  shows "export_header (int n) ! (3 + 5 * i + j) = KEYS ! j @ ''_'' @ str_int (int i + 1)"
proof -
  let ?xss = "map (\<lambda>i. map (\<lambda>k. k @ ''_'' @ str_int (int i + 1)) KEYS) [0..<n]"
  have "concat ?xss ! (5 * i + j) = ?xss ! i ! j"
    using assms by (intro nth_concat_blocks) (simp_all add: length_KEYS)
  moreover have "export_header (int n) ! (3 + (5 * i + j)) = concat ?xss ! (5 * i + j)"
    unfolding export_header_conv
    using nth_append_length_plus [of "[''week'', ''mode'', ''prep'']" "concat ?xss" "5 * i + j"]
    by simp
  ultimately show ?thesis using assms by (simp add: length_KEYS add.assoc)
qed

lemma length_export_header: "length (export_header (int n)) = 3 + 5 * n"
proof -
  have "length (concat (map (\<lambda>i. map (\<lambda>k. k @ ''_'' @ str_int (int i + 1)) KEYS) [0..<n])) = 5 * n"
    using length_concat_blocks [of "map (\<lambda>i. map (\<lambda>k. k @ ''_'' @ str_int (int i + 1)) KEYS) [0..<n]" 5]
    by (simp add: length_KEYS)
  then show ?thesis by (simp add: export_header_conv)
qed

lemma export_header_take: "take 3 (export_header (int n)) = [''week'', ''mode'', ''prep'']"
  by (simp add: export_header_conv)

section \<open>Claims about create_models, step_once and tick\<close>





section \<open>Claims about export_csv_raw_runs\<close>



text \<open>
  C2. The file has one data row per week \<open>0 .. t\<close>. Its header starts with \<open>week\<close>,
  \<open>mode\<close>, \<open>prep\<close>, followed for each run in order by five columns named
  \<open><state>_<n>\<close>, where the states come in the order of \<open>KEYS\<close> and \<open>n\<close> numbers the runs
  from 1 (\<open>run_idx + 1\<close>). The row of week \<open>w\<close> starts with \<open>w\<close>, the mode string and the
  prep fraction, and then holds, in the header's columns, each run's count of each state
  at week \<open>w\<close> (for a run that has recorded that week and a snapshot that has the key).
\<close>

theorem export_csv_layout:
  "\<exists>f. export_csv_raw_runs E now output_dir s = (None, s\<lparr>written := written s @ [f]\<rparr>)
     \<and> KEYS = [''susceptible'', ''acute'', ''chronic'', ''aids'', ''dead'']
     \<and> length (header (snd f)) = 3 + 5 * length (models s)
     \<and> take 3 (header (snd f)) = [''week'', ''mode'', ''prep'']
     \<and> (\<forall>i<length (models s). \<forall>j<5.
           header (snd f) ! (3 + 5 * i + j) = KEYS ! j @ ''_'' @ str_int (int i + 1))
     \<and> length (rows (snd f)) = nat (t s + 1)
     \<and> (\<forall>w<length (rows (snd f)).
           length (rows (snd f) ! w) = 3 + 5 * length (models s)
         \<and> take 3 (rows (snd f) ! w)
             = [IntCell (int w), StrCell (mode_var s), FloatCell (prep_amount_input s)]
         \<and> (\<forall>i<length (models s). \<forall>j<5. \<forall>c.
               w < length (states_per_time E (models s ! i))
                 \<and> (states_per_time E (models s ! i) ! w) (KEYS ! j) = Some c
               \<longrightarrow> rows (snd f) ! w ! (3 + 5 * i + j) = IntCell c))"
proof -
  let ?runs = "map (states_per_time E) (models s)"
  let ?f = "(export_path now output_dir s,
          \<lparr>header = export_header (int (length (models s))),
           rows = map (exported_row (mode_var s) (prep_amount_input s) ?runs)
                      [0..<nat (t s + 1)]\<rparr>)"
  have "export_csv_raw_runs E now output_dir s = (None, s\<lparr>written := written s @ [?f]\<rparr>)"
    by (rule export_csv_raw_runs_eq)
  moreover have "KEYS = [''susceptible'', ''acute'', ''chronic'', ''aids'', ''dead'']"
    by (simp add: KEYS_def)
  moreover have "length (header (snd ?f)) = 3 + 5 * length (models s)"
    by (simp add: length_export_header)
  moreover have "take 3 (header (snd ?f)) = [''week'', ''mode'', ''prep'']"
    by (simp add: export_header_take)
  moreover have "\<forall>i<length (models s). \<forall>j<5.
           header (snd ?f) ! (3 + 5 * i + j) = KEYS ! j @ ''_'' @ str_int (int i + 1)"
    by (simp add: export_header_nth)
  moreover have "length (rows (snd ?f)) = nat (t s + 1)" by simp
  moreover have "length (rows (snd ?f) ! w) = 3 + 5 * length (models s)
         \<and> take 3 (rows (snd ?f) ! w)
             = [IntCell (int w), StrCell (mode_var s), FloatCell (prep_amount_input s)]
         \<and> (\<forall>i<length (models s). \<forall>j<5. \<forall>c.
               w < length (states_per_time E (models s ! i))
                 \<and> (states_per_time E (models s ! i) ! w) (KEYS ! j) = Some c
               \<longrightarrow> rows (snd ?f) ! w ! (3 + 5 * i + j) = IntCell c)"
    if "w < length (rows (snd ?f))" for w
    using that
    by (simp add: length_exported_row exported_row_take exported_row_nth exported_count_def
        dict_get_def)
  ultimately show ?thesis by blast
qed

theorem export_csv_layout_witness:
  "\<exists>f. export_csv_raw_runs (spec_engine demo_dynamics) (\<lambda>n. ''20260128_101939'') None demo_week1
        = (None, demo_week1\<lparr>written := written demo_week1 @ [f]\<rparr>)
     \<and> length (rows (snd f)) = 2
     \<and> header (snd f) ! 3 = ''susceptible_1''
     \<and> header (snd f) ! 9 = ''acute_2''
     \<and> take 3 (rows (snd f) ! 1)
          = [IntCell 1, StrCell ''standard'', FloatCell (float_of_ratio 1 10)]
     \<and> rows (snd f) ! 1 ! 10 = IntCell 1"
proof -
  let ?E = "spec_engine demo_dynamics"
  let ?s = "demo_week1"
  from export_csv_layout [of ?E "\<lambda>n. ''20260128_101939''" None ?s]
  obtain f where ex: "export_csv_raw_runs ?E (\<lambda>n. ''20260128_101939'') None ?s
        = (None, ?s\<lparr>written := written ?s @ [f]\<rparr>)"
    and hd: "\<forall>i<length (models ?s). \<forall>j<5.
           header (snd f) ! (3 + 5 * i + j) = KEYS ! j @ ''_'' @ str_int (int i + 1)"
    and len: "length (rows (snd f)) = nat (t ?s + 1)"
    and rws: "\<forall>w<length (rows (snd f)).
           length (rows (snd f) ! w) = 3 + 5 * length (models ?s)
         \<and> take 3 (rows (snd f) ! w)
             = [IntCell (int w), StrCell (mode_var ?s), FloatCell (prep_amount_input ?s)]
         \<and> (\<forall>i<length (models ?s). \<forall>j<5. \<forall>c.
               w < length (states_per_time ?E (models ?s ! i))
                 \<and> (states_per_time ?E (models ?s ! i) ! w) (KEYS ! j) = Some c
               \<longrightarrow> rows (snd f) ! w ! (3 + 5 * i + j) = IntCell c)"
    by blast
  have t1: "nat (t ?s + 1) = 2" by code_simp
  have n: "length (models ?s) = 2" by code_simp
  have m: "mode_var ?s = ''standard''" by code_simp
  have p: "prep_amount_input ?s = float_of_ratio 1 10" by code_simp
  have k0: "KEYS ! 0 @ ''_'' @ str_int (int 0 + 1) = ''susceptible_1''" by code_simp
  have k1: "KEYS ! 1 @ ''_'' @ str_int (int 1 + 1) = ''acute_2''" by code_simp
  have c: "1 < length (states_per_time ?E (models ?s ! 1))
         \<and> (states_per_time ?E (models ?s ! 1) ! 1) (KEYS ! 2) = Some 1" by code_simp
  have h3: "header (snd f) ! 3 = ''susceptible_1''"
    using hd [rule_format, of 0 0] n k0 by simp
  have h9: "header (snd f) ! 9 = ''acute_2''"
    using hd [rule_format, of 1 1] n k1 by simp
  have r1: "take 3 (rows (snd f) ! 1)
             = [IntCell 1, StrCell ''standard'', FloatCell (float_of_ratio 1 10)]"
    using rws [rule_format, of 1] len t1 m p by simp
  have r10: "rows (snd f) ! 1 ! 10 = IntCell 1"
    using rws [rule_format, of 1, THEN conjunct2, THEN conjunct2, rule_format, of 1 2 1]
      len t1 n c by simp
  from ex len t1 h3 h9 r1 r10 show ?thesis by (intro exI [of _ f]) simp
qed





section \<open>Claims about the animation loop and the week counter\<close>





















section \<open>Claims about batch_export\<close>



section \<open>Lemmas on file names\<close>

lemma digit_in_digits: "d < 10 \<Longrightarrow> digit d \<in> set ''0123456789''"
  unfolding digit_def by (rule nth_mem) simp

lemma digit_inj: "a < 10 \<Longrightarrow> b < 10 \<Longrightarrow> digit a = digit b \<Longrightarrow> a = b"
  unfolding digit_def
  using nth_eq_iff_index_eq [of "''0123456789''" a b] by simp

lemma set_str_nat: "set (str_nat n) \<subseteq> set ''0123456789''"
proof (induction n rule: str_nat.induct)
  case (1 n)
  show ?case
  proof (cases "n < 10")
    case True
    then show ?thesis using digit_in_digits [of n] by (subst str_nat.simps) simp
  next
    case False
    have "n mod 10 < 10" by simp
    with False "1.IH" digit_in_digits [of "n mod 10"] show ?thesis
      by (subst str_nat.simps) simp
  qed
qed

lemma str_nat_not_Nil: "str_nat n \<noteq> []"
  by (subst str_nat.simps) simp

lemma str_nat_inj: "str_nat a = str_nat b \<Longrightarrow> a = b"
proof (induction a arbitrary: b rule: str_nat.induct)
  case (1 a)
  show ?case
  proof (cases "a < 10")
    case True
    then have a: "str_nat a = [digit a]" by (subst str_nat.simps) simp
    show ?thesis
    proof (cases "b < 10")
      case bt: True
      then have "str_nat b = [digit b]" by (subst str_nat.simps) simp
      with a "1.prems" have "digit a = digit b" by simp
      with True bt show ?thesis by (rule digit_inj)
    next
      case bf: False
      then have "str_nat b = str_nat (b div 10) @ [digit (b mod 10)]"
        by (subst str_nat.simps) simp
      with a "1.prems" str_nat_not_Nil [of "b div 10"] show ?thesis by simp
    qed
  next
    case False
    then have a: "str_nat a = str_nat (a div 10) @ [digit (a mod 10)]"
      by (subst str_nat.simps) simp
    show ?thesis
    proof (cases "b < 10")
      case bt: True
      then have "str_nat b = [digit b]" by (subst str_nat.simps) simp
      with a "1.prems" str_nat_not_Nil [of "a div 10"] show ?thesis by simp
    next
      case bf: False
      then have b: "str_nat b = str_nat (b div 10) @ [digit (b mod 10)]"
        by (subst str_nat.simps) simp
      from a b "1.prems" have q: "str_nat (a div 10) = str_nat (b div 10)"
        and r: "digit (a mod 10) = digit (b mod 10)" by simp_all
      from "1.IH" [OF False q] have "a div 10 = b div 10" .
      moreover have "a mod 10 = b mod 10"
        by (rule digit_inj [OF _ _ r]) simp_all
      ultimately show ?thesis by (metis div_mult_mod_eq)
    qed
  qed
qed

lemma underscore_not_in_str_nat: "CHR ''_'' \<notin> set (str_nat n)"
  using set_str_nat [of n] by auto

lemma minus_not_in_str_nat: "CHR ''-'' \<notin> set (str_nat n)"
  using set_str_nat [of n] by auto

lemma underscore_not_in_str_int: "CHR ''_'' \<notin> set (str_int i)"
  by (simp add: str_int_def underscore_not_in_str_nat)

lemma str_int_inj: "str_int a = str_int b \<Longrightarrow> a = b"
proof -
  assume eq: "str_int a = str_int b"
  have nd: "\<And>n. hd (str_nat n) \<noteq> CHR ''-''"
  proof -
    fix n
    have "hd (str_nat n) \<in> set (str_nat n)" using str_nat_not_Nil by simp
    with minus_not_in_str_nat [of n] show "hd (str_nat n) \<noteq> CHR ''-''" by metis
  qed
  show ?thesis
  proof (cases "a < 0")
    case True
    show ?thesis
    proof (cases "b < 0")
      case bt: True
      with True eq have "str_nat (nat (- a)) = str_nat (nat (- b))" by (simp add: str_int_def)
      then have "nat (- a) = nat (- b)" by (rule str_nat_inj)
      with True bt show ?thesis by simp
    next
      case bf: False
      with True eq have "CHR ''-'' # str_nat (nat (- a)) = str_nat (nat b)" by (simp add: str_int_def)
      then have "hd (str_nat (nat b)) = CHR ''-''" by (metis list.sel(1))
      with nd show ?thesis by blast
    qed
  next
    case False
    show ?thesis
    proof (cases "b < 0")
      case bt: True
      with False eq have "str_nat (nat a) = CHR ''-'' # str_nat (nat (- b))" by (simp add: str_int_def)
      then have "hd (str_nat (nat a)) = CHR ''-''" by (metis list.sel(1))
      with nd show ?thesis by blast
    next
      case bf: False
      with False eq have "str_nat (nat a) = str_nat (nat b)" by (simp add: str_int_def)
      then have "nat a = nat b" by (rule str_nat_inj)
      with False bf show ?thesis by simp
    qed
  qed
qed

lemma split_at_separator:
  "c \<notin> set u \<Longrightarrow> c \<notin> set v \<Longrightarrow> u @ c # x = v @ c # y \<Longrightarrow> u = v \<and> x = y"
proof (induction u arbitrary: v)
  case Nil
  then show ?case by (cases v) auto
next
  case (Cons a u)
  then show ?case by (cases v) auto
qed

lemma export_filename_inj_pct:
  assumes "export_filename m a w n ns it ts = export_filename m b w' n' ns' it' ts'"
  shows "a = b"
proof -
  note ua = underscore_not_in_str_int [of a]
  note ub = underscore_not_in_str_int [of b]
  from assms have "str_int a @ CHR ''_'' # (''weeks'' @ str_int w @ ''_nodes'' @ str_int n
        @ ''_netseed'' @ str_int ns @ ''_iters'' @ str_int it @ ''_RAW__'' @ ts @ ''.csv'')
      = str_int b @ CHR ''_'' # (''weeks'' @ str_int w' @ ''_nodes'' @ str_int n'
        @ ''_netseed'' @ str_int ns' @ ''_iters'' @ str_int it' @ ''_RAW__'' @ ts' @ ''.csv'')"
    by (simp add: export_filename_def)
  from split_at_separator [OF ua ub this] have "str_int a = str_int b" by simp
  then show ?thesis by (rule str_int_inj)
qed

lemma path_join_data_inj:
  assumes "CHR ''/'' \<notin> set m" "CHR ''/'' \<notin> set m'"
    and "path_join (path_join ''data'' m) x = path_join (path_join ''data'' m') y"
  shows "m = m' \<and> x = y"
proof -
  from assms(3) have "m @ CHR ''/'' # x = m' @ CHR ''/'' # y"
    by (simp add: path_join_def)
  from split_at_separator [OF assms(1,2) this] show ?thesis .
qed

lemma rebuild_frame: "\<exists>ms. snd (rebuild E s) = s\<lparr>models := ms\<rparr>"
proof (cases "create_models E s")
  case (Inl e)
  then have "snd (rebuild E s) = s\<lparr>models := models s\<rparr>" by (simp add: rebuild_def)
  then show ?thesis ..
next
  case (Inr ms)
  then have "snd (rebuild E s) = s\<lparr>models := ms\<rparr>"
    by (simp add: rebuild_def Let_def split: sum.splits)
  then show ?thesis ..
qed

lemma batch_steps_frame:
  "\<exists>ms n. snd (batch_steps E max_t s) = s\<lparr>models := ms, t := n\<rparr>
     \<and> (fst (batch_steps E max_t s) = None \<longrightarrow> n = max (t s) max_t)"
proof (induction E max_t s rule: batch_steps.induct)
  case (1 E max_t s)
  show ?case
  proof (cases "t s < max_t")
    case False
    then have "batch_steps E max_t s = (None, s\<lparr>models := models s, t := t s\<rparr>)"
      by (subst batch_steps.simps) simp
    with False show ?thesis by (intro exI [of _ "models s"] exI [of _ "t s"]) simp
  next
    case True
    obtain ms r where sm: "step_models E (models s) = (ms, r)" by (cases "step_models E (models s)")
    show ?thesis
    proof (cases r)
      case (Some e)
      with True sm have "batch_steps E max_t s = (Some e, s\<lparr>models := ms, t := t s\<rparr>)"
        by (subst batch_steps.simps) simp
      then show ?thesis by (intro exI [of _ ms] exI [of _ "t s"]) simp
    next
      case None
      let ?s' = "s\<lparr>models := ms, t := t s + 1\<rparr>"
      from True sm None have eq: "batch_steps E max_t s = batch_steps E max_t ?s'"
        by (subst batch_steps.simps) simp
      from "1.IH" [OF True sm [symmetric] None] obtain ms' n where
        fr: "snd (batch_steps E max_t ?s') = ?s'\<lparr>models := ms', t := n\<rparr>"
        and fin: "fst (batch_steps E max_t ?s') = None \<longrightarrow> n = max (t ?s') max_t"
        by auto
      from fr eq have "snd (batch_steps E max_t s) = s\<lparr>models := ms', t := n\<rparr>" by simp
      moreover from fin eq True have "fst (batch_steps E max_t s) = None \<longrightarrow> n = max (t s) max_t"
        by auto
      ultimately show ?thesis by (intro exI [of _ ms'] exI [of _ n]) simp
    qed
  qed
qed

lemma batch_try_frame:
  "\<exists>ms n new. snd (batch_try E now max_t dir s) = s\<lparr>models := ms, t := n, written := written s @ new\<rparr>
     \<and> (new = [] \<or> (\<exists>f. new = [(job_file dir s (prep_amount_input s) (max (t s) max_t)
                                     (now (length (written s))), f)]))"
proof -
  obtain r1 s1 where rb: "rebuild E s = (r1, s1)" by (cases "rebuild E s")
  from rebuild_frame [of E s] rb obtain ms1 where s1: "s1 = s\<lparr>models := ms1\<rparr>" by auto
  show ?thesis
  proof (cases r1)
    case (Some e)
    with rb s1 have "snd (batch_try E now max_t dir s) = s\<lparr>models := ms1, t := t s, written := written s @ []\<rparr>"
      by (simp add: batch_try_def)
    then show ?thesis by blast
  next
    case None
    obtain r2 s2 where bs: "batch_steps E max_t s1 = (r2, s2)" by (cases "batch_steps E max_t s1")
    from batch_steps_frame [of E max_t s1] bs s1 obtain ms2 n where
      s2: "s2 = s\<lparr>models := ms2, t := n\<rparr>" and fin: "r2 = None \<longrightarrow> n = max (t s) max_t"
      by auto
    show ?thesis
    proof (cases r2)
      case (Some e)
      with rb None bs s2 have "snd (batch_try E now max_t dir s) = s\<lparr>models := ms2, t := n, written := written s @ []\<rparr>"
        by (simp add: batch_try_def)
      then show ?thesis by blast
    next
      case r2: None
      with fin have n: "n = max (t s) max_t" by simp
      from rb None bs r2 have "batch_try E now max_t dir s = export_csv_raw_runs E now (Some dir) s2"
        by (simp add: batch_try_def)
      then have "snd (batch_try E now max_t dir s) =
          s\<lparr>models := ms2, t := n, written := written s @
            [(job_file dir s (prep_amount_input s) (max (t s) max_t) (now (length (written s))),
              \<lparr>header = export_header (int (length (models s2))),
               rows = map (exported_row (mode_var s2) (prep_amount_input s2)
                          (map (states_per_time E) (models s2))) [0..<nat (t s2 + 1)]\<rparr>)]\<rparr>"
        by (simp add: export_csv_raw_runs_eq s2 n export_path_def job_file_def)
      then show ?thesis by blast
    qed
  qed
qed

lemma snd_batch_job: "snd (batch_job E now max_t dir s) = snd (batch_try E now max_t dir s)"
  by (auto simp: batch_job_def split: prod.splits option.splits error.splits)

lemma job_file_inj_pct:
  "job_file dir s p w ts = job_file dir s p' w' ts' \<Longrightarrow> prep_pct_of p = prep_pct_of p'"
  unfolding job_file_def path_join_def by (auto dest: export_filename_inj_pct)


lemma job_file_settings:
  "mode_var s' = mode_var s \<Longrightarrow> num_nodes_input s' = num_nodes_input s
     \<Longrightarrow> network_seed_input s' = network_seed_input s
     \<Longrightarrow> iterations_input s' = iterations_input s
     \<Longrightarrow> job_file dir s' = job_file dir s"
  by (intro ext) (simp add: job_file_def)

lemma batch_preps_written:
  "\<exists>ms n q new.
      snd (batch_preps E now max_t dir ps s)
        = s\<lparr>models := ms, t := n, prep_amount_input := q, written := written s @ new\<rparr>
    \<and> (\<forall>x\<in>set new. \<exists>p\<in>set ps. \<exists>ts. fst x = job_file dir s p (max 0 max_t) ts)
    \<and> (distinct (map prep_pct_of ps) \<longrightarrow> distinct (map fst new))"
proof (induction ps arbitrary: s)
  case Nil
  have "snd (batch_preps E now max_t dir [] s)
      = s\<lparr>models := models s, t := t s, prep_amount_input := prep_amount_input s,
          written := written s @ []\<rparr>" by simp
  then show ?case by (intro exI [of _ "models s"] exI [of _ "t s"]
        exI [of _ "prep_amount_input s"] exI [of _ "[]"]) simp
next
  case (Cons p ps)
  let ?s1 = "s\<lparr>prep_amount_input := p, t := 0\<rparr>"
  obtain r s2 where j: "batch_job E now max_t dir ?s1 = (r, s2)"
    by (cases "batch_job E now max_t dir ?s1")
  then have s2t: "s2 = snd (batch_try E now max_t dir ?s1)"
    using snd_batch_job [of E now max_t dir ?s1] by simp
  from batch_try_frame [of E now max_t dir ?s1] obtain ms1 n1 new1 where
    a: "snd (batch_try E now max_t dir ?s1)
          = ?s1\<lparr>models := ms1, t := n1, written := written ?s1 @ new1\<rparr>"
    and b: "new1 = [] \<or> (\<exists>f. new1 = [(job_file dir ?s1 (prep_amount_input ?s1)
                                     (max (t ?s1) max_t) (now (length (written ?s1))), f)])"
    by blast
  from a s2t have s2: "s2 = s\<lparr>models := ms1, t := n1, prep_amount_input := p,
      written := written s @ new1\<rparr>" by simp
  from b have new1: "new1 = [] \<or> (\<exists>f ts. new1 = [(job_file dir s p (max 0 max_t) ts, f)])"
    by (auto simp: job_file_def)
  from new1 have d1: "distinct (map fst new1)" by auto
  from new1 have p1: "\<forall>x\<in>set new1. \<exists>ts. fst x = job_file dir s p (max 0 max_t) ts" by auto
  show ?case
  proof (cases r)
    case (Some e)
    with j have "snd (batch_preps E now max_t dir (p # ps) s) = s2" by simp
    with s2 p1 d1 show ?thesis
      by (intro exI [of _ ms1] exI [of _ n1] exI [of _ p] exI [of _ new1]) auto
  next
    case None
    with j have eq: "batch_preps E now max_t dir (p # ps) s = batch_preps E now max_t dir ps s2"
      by simp
    from Cons.IH [of s2] obtain ms n q new2 where
      s3: "snd (batch_preps E now max_t dir ps s2)
            = s2\<lparr>models := ms, t := n, prep_amount_input := q, written := written s2 @ new2\<rparr>"
      and p2': "\<forall>x\<in>set new2. \<exists>p'\<in>set ps. \<exists>ts. fst x = job_file dir s2 p' (max 0 max_t) ts"
      and d2: "distinct (map prep_pct_of ps) \<longrightarrow> distinct (map fst new2)"
      by auto
    have jf: "job_file dir s2 = job_file dir s"
      by (rule job_file_settings) (simp_all add: s2)
    from p2' jf have p2: "\<forall>x\<in>set new2. \<exists>p'\<in>set ps. \<exists>ts. fst x = job_file dir s p' (max 0 max_t) ts"
      by simp
    have st: "snd (batch_preps E now max_t dir (p # ps) s)
        = s\<lparr>models := ms, t := n, prep_amount_input := q, written := written s @ (new1 @ new2)\<rparr>"
      using eq s3 s2 by simp
    have paths: "\<forall>x\<in>set (new1 @ new2). \<exists>p'\<in>set (p # ps). \<exists>ts.
        fst x = job_file dir s p' (max 0 max_t) ts"
      using p1 p2 by auto
    have dist: "distinct (map fst (new1 @ new2))" if dp: "distinct (map prep_pct_of (p # ps))"
    proof -
      from dp d2 have d2': "distinct (map fst new2)" by simp
      have "fst x \<noteq> fst y" if "x \<in> set new1" "y \<in> set new2" for x y
      proof
        assume e: "fst x = fst y"
        from p1 that(1) obtain ts where x: "fst x = job_file dir s p (max 0 max_t) ts" by auto
        from p2 that(2) obtain p' ts' where p': "p' \<in> set ps"
          and y: "fst y = job_file dir s p' (max 0 max_t) ts'" by auto
        from e x y have "prep_pct_of p = prep_pct_of p'" by (auto dest: job_file_inj_pct)
        with dp p' show False by auto
      qed
      then have "set (map fst new1) \<inter> set (map fst new2) = {}" by auto
      with d1 d2' show ?thesis by simp
    qed
    from st paths dist show ?thesis
      by (intro exI [of _ ms] exI [of _ n] exI [of _ q] exI [of _ "new1 @ new2"]) blast
  qed
qed


lemma job_file_inj_mode:
  assumes "CHR ''/'' \<notin> set m" "CHR ''/'' \<notin> set m'"
    and "job_file (path_join ''data'' m) s p w ts = job_file (path_join ''data'' m') s' p' w' ts'"
  shows "m = m'"
  using path_join_data_inj [OF assms(1,2)] assms(3) unfolding job_file_def by blast

lemma batch_modes_written:
  "\<exists>ms n q mv new.
      snd (batch_modes E now c modes s)
        = s\<lparr>models := ms, t := n, prep_amount_input := q, mode_var := mv,
            written := written s @ new\<rparr>
    \<and> (\<forall>x\<in>set new. \<exists>m\<in>set modes. \<exists>p ts.
          fst x = job_file (path_join ''data'' m) (s\<lparr>mode_var := m\<rparr>) p (max 0 (cfg_max_t c)) ts)
    \<and> (distinct (map prep_pct_of (cfg_prep_values c)) \<and> distinct modes
          \<and> (\<forall>m\<in>set modes. CHR ''/'' \<notin> set m)
        \<longrightarrow> distinct (map fst new))"
proof (induction modes arbitrary: s)
  case Nil
  have "snd (batch_modes E now c [] s)
      = s\<lparr>models := models s, t := t s, prep_amount_input := prep_amount_input s,
          mode_var := mode_var s, written := written s @ []\<rparr>" by simp
  then show ?case by (intro exI [of _ "models s"] exI [of _ "t s"]
        exI [of _ "prep_amount_input s"] exI [of _ "mode_var s"] exI [of _ "[]"]) simp
next
  case (Cons m modes)
  let ?s1 = "s\<lparr>mode_var := m\<rparr>"
  let ?dir = "path_join ''data'' m"
  let ?w = "max 0 (cfg_max_t c)"
  obtain r s2 where j: "batch_preps E now (cfg_max_t c) ?dir (cfg_prep_values c) ?s1 = (r, s2)"
    by (cases "batch_preps E now (cfg_max_t c) ?dir (cfg_prep_values c) ?s1")
  from batch_preps_written [of E now "cfg_max_t c" ?dir "cfg_prep_values c" ?s1]
  obtain ms1 n1 q1 new1 where
    a: "snd (batch_preps E now (cfg_max_t c) ?dir (cfg_prep_values c) ?s1)
          = ?s1\<lparr>models := ms1, t := n1, prep_amount_input := q1, written := written ?s1 @ new1\<rparr>"
    and p1: "\<forall>x\<in>set new1. \<exists>p\<in>set (cfg_prep_values c). \<exists>ts. fst x = job_file ?dir ?s1 p ?w ts"
    and d1: "distinct (map prep_pct_of (cfg_prep_values c)) \<longrightarrow> distinct (map fst new1)"
    by blast
  from a j have s2: "s2 = s\<lparr>models := ms1, t := n1, prep_amount_input := q1, mode_var := m,
      written := written s @ new1\<rparr>" by simp
  show ?case
  proof (cases r)
    case (Some e)
    with j have "snd (batch_modes E now c (m # modes) s) = s2" by (simp add: Let_def)
    with s2 have st: "snd (batch_modes E now c (m # modes) s)
        = s\<lparr>models := ms1, t := n1, prep_amount_input := q1, mode_var := m,
            written := written s @ new1\<rparr>" by simp
    have paths: "\<forall>x\<in>set new1. \<exists>m'\<in>set (m # modes). \<exists>p ts.
        fst x = job_file (path_join ''data'' m') (s\<lparr>mode_var := m'\<rparr>) p ?w ts"
    proof
      fix x assume "x \<in> set new1"
      with p1 obtain p ts where "fst x = job_file ?dir ?s1 p ?w ts" by blast
      then show "\<exists>m'\<in>set (m # modes). \<exists>p ts.
        fst x = job_file (path_join ''data'' m') (s\<lparr>mode_var := m'\<rparr>) p ?w ts"
        by (intro bexI [of _ m] exI [of _ p] exI [of _ ts]) simp_all
    qed
    have dist: "distinct (map prep_pct_of (cfg_prep_values c)) \<and> distinct (m # modes)
          \<and> (\<forall>m\<in>set (m # modes). CHR ''/'' \<notin> set m) \<longrightarrow> distinct (map fst new1)"
      using d1 by simp
    from st paths dist show ?thesis
      by (intro exI [of _ ms1] exI [of _ n1] exI [of _ q1] exI [of _ m] exI [of _ new1]) blast
  next
    case None
    with j have eq: "batch_modes E now c (m # modes) s = batch_modes E now c modes s2"
      by (simp add: Let_def)
    from Cons.IH [of s2] obtain ms n q mv new2 where
      s3: "snd (batch_modes E now c modes s2)
            = s2\<lparr>models := ms, t := n, prep_amount_input := q, mode_var := mv,
                 written := written s2 @ new2\<rparr>"
      and p2': "\<forall>x\<in>set new2. \<exists>m'\<in>set modes. \<exists>p ts.
          fst x = job_file (path_join ''data'' m') (s2\<lparr>mode_var := m'\<rparr>) p ?w ts"
      and d2: "distinct (map prep_pct_of (cfg_prep_values c)) \<and> distinct modes
          \<and> (\<forall>m\<in>set modes. CHR ''/'' \<notin> set m) \<longrightarrow> distinct (map fst new2)"
      by blast
    have jf: "job_file d (s2\<lparr>mode_var := m'\<rparr>) = job_file d (s\<lparr>mode_var := m'\<rparr>)" for d m'
      by (rule job_file_settings) (simp_all add: s2)
    from p2' jf have p2: "\<forall>x\<in>set new2. \<exists>m'\<in>set modes. \<exists>p ts.
          fst x = job_file (path_join ''data'' m') (s\<lparr>mode_var := m'\<rparr>) p ?w ts"
      by simp
    have st: "snd (batch_modes E now c (m # modes) s)
        = s\<lparr>models := ms, t := n, prep_amount_input := q, mode_var := mv,
            written := written s @ (new1 @ new2)\<rparr>"
      using eq s3 s2 by simp
    have paths: "\<forall>x\<in>set (new1 @ new2). \<exists>m'\<in>set (m # modes). \<exists>p ts.
        fst x = job_file (path_join ''data'' m') (s\<lparr>mode_var := m'\<rparr>) p ?w ts"
    proof
      fix x assume "x \<in> set (new1 @ new2)"
      then consider "x \<in> set new1" | "x \<in> set new2" by auto
      then show "\<exists>m'\<in>set (m # modes). \<exists>p ts.
        fst x = job_file (path_join ''data'' m') (s\<lparr>mode_var := m'\<rparr>) p ?w ts"
      proof cases
        case 1
        with p1 obtain p ts where "fst x = job_file ?dir ?s1 p ?w ts" by blast
        then show ?thesis by (intro bexI [of _ m] exI [of _ p] exI [of _ ts]) simp_all
      next
        case 2
        with p2 obtain m' p ts where "m' \<in> set modes"
          "fst x = job_file (path_join ''data'' m') (s\<lparr>mode_var := m'\<rparr>) p ?w ts" by blast
        then show ?thesis by (intro bexI [of _ m'] exI [of _ p] exI [of _ ts]) simp_all
      qed
    qed
    have dist: "distinct (map fst (new1 @ new2))"
      if h: "distinct (map prep_pct_of (cfg_prep_values c)) \<and> distinct (m # modes)
          \<and> (\<forall>m\<in>set (m # modes). CHR ''/'' \<notin> set m)"
    proof -
      from h d1 have d1': "distinct (map fst new1)" by simp
      from h d2 have d2': "distinct (map fst new2)" by simp
      have "fst x \<noteq> fst y" if "x \<in> set new1" "y \<in> set new2" for x y
      proof
        assume e: "fst x = fst y"
        from p1 that(1) obtain p ts where x: "fst x = job_file ?dir ?s1 p ?w ts" by auto
        from p2 that(2) obtain m' p' ts' where m': "m' \<in> set modes"
          and y: "fst y = job_file (path_join ''data'' m') (s\<lparr>mode_var := m'\<rparr>) p' ?w ts'"
          by auto
        from h m' have "CHR ''/'' \<notin> set m" "CHR ''/'' \<notin> set m'" by auto
        from job_file_inj_mode [OF this] e x y have "m = m'" by metis
        with h m' show False by auto
      qed
      then have "set (map fst new1) \<inter> set (map fst new2) = {}" by auto
      with d1' d2' show ?thesis by simp
    qed
    from st paths dist show ?thesis
      by (intro exI [of _ ms] exI [of _ n] exI [of _ q] exI [of _ mv] exI [of _ "new1 @ new2"]) blast
  qed
qed

lemma batch_run_distinct:
  assumes "distinct (map prep_pct_of (cfg_prep_values c))" "distinct (cfg_modes c)"
    "\<forall>m\<in>set (cfg_modes c). CHR ''/'' \<notin> set m"
  shows "\<exists>new. written (snd (batch_run E now c s)) = written s @ new \<and> distinct (map fst new)"
proof -
  let ?s0 = "s\<lparr> running := False, max_t_input := cfg_max_t c,
           iterations_input := cfg_iterations c, num_nodes_input := cfg_num_nodes c,
           network_seed_input := cfg_network_seed c \<rparr>"
  from batch_modes_written [of E now c "cfg_modes c" ?s0] obtain ms n q mv new where
    a: "snd (batch_modes E now c (cfg_modes c) ?s0)
        = ?s0\<lparr>models := ms, t := n, prep_amount_input := q, mode_var := mv,
            written := written ?s0 @ new\<rparr>"
    and d: "distinct (map prep_pct_of (cfg_prep_values c)) \<and> distinct (cfg_modes c)
          \<and> (\<forall>m\<in>set (cfg_modes c). CHR ''/'' \<notin> set m) \<longrightarrow> distinct (map fst new)"
    by blast
  from a have "written (snd (batch_run E now c s)) = written s @ new"
    by (simp add: batch_run_def)
  with d assms show ?thesis by blast
qed

lemma source_cfg_pcts:
  "map prep_pct_of (cfg_prep_values source_cfg) = [10, 20, 30, 40, 50, 60, 70, 80, 90, 100]"
  by (simp add: source_cfg_def prep_pct_of_def float_of_int_def float_round_def
      float_of_ratio_def bit_length.simps round_half_even_def Let_def)

lemma batch_export_distinct:
  "\<exists>new. written (snd (batch_export E now s)) = written s @ new \<and> distinct (map fst new)"
  unfolding batch_export_def
proof (rule batch_run_distinct)
  show "distinct (map prep_pct_of (cfg_prep_values source_cfg))"
    by (simp add: source_cfg_pcts)
  show "distinct (cfg_modes source_cfg)" by (simp add: source_cfg_def)
  show "\<forall>m\<in>set (cfg_modes source_cfg). CHR ''/'' \<notin> set m" by (simp add: source_cfg_def)
qed

text \<open>
  C7. The name of every exported file is made of the mode, the prep percentage
  \<open>int(prep * 100)\<close>, the week counter, the node count, the network seed, the iteration
  count (each as the settings hold it at the time of the export) and the clock's
  timestamp, in this order. The files written during one \<open>batch_export\<close> have pairwise
  different paths, whatever the clock returns: no batch job replaces the file of another.
\<close>

theorem export_paths_distinct:
  "(\<exists>f. export_csv_raw_runs E now output_dir s = (None, s\<lparr>written := written s @ [f]\<rparr>)
      \<and> fst f = path_join (case output_dir of None \<Rightarrow> ''sim_results'' | Some d \<Rightarrow> d)
           (mode_var s @ ''_prep'' @ str_int (prep_pct_of (prep_amount_input s))
              @ ''_weeks'' @ str_int (t s) @ ''_nodes'' @ str_int (num_nodes_input s)
              @ ''_netseed'' @ str_int (network_seed_input s)
              @ ''_iters'' @ str_int (iterations_input s)
              @ ''_RAW__'' @ now (length (written s)) @ ''.csv''))
   \<and> (\<exists>new. written (snd (batch_export E now s)) = written s @ new \<and> distinct (map fst new))"
proof
  show "\<exists>f. export_csv_raw_runs E now output_dir s = (None, s\<lparr>written := written s @ [f]\<rparr>)
      \<and> fst f = path_join (case output_dir of None \<Rightarrow> ''sim_results'' | Some d \<Rightarrow> d)
           (mode_var s @ ''_prep'' @ str_int (prep_pct_of (prep_amount_input s))
              @ ''_weeks'' @ str_int (t s) @ ''_nodes'' @ str_int (num_nodes_input s)
              @ ''_netseed'' @ str_int (network_seed_input s)
              @ ''_iters'' @ str_int (iterations_input s)
              @ ''_RAW__'' @ now (length (written s)) @ ''.csv'')"
    by (intro exI [of _ "(export_path now output_dir s,
          \<lparr>header = export_header (int (length (models s))),
           rows = map (exported_row (mode_var s) (prep_amount_input s)
                          (map (states_per_time E) (models s)))
                      [0..<nat (t s + 1)]\<rparr>)"])
       (simp add: export_csv_raw_runs_eq export_path_def export_filename_def)
  show "\<exists>new. written (snd (batch_export E now s)) = written s @ new \<and> distinct (map fst new)"
    by (rule batch_export_distinct)
qed

theorem export_paths_distinct_witness:
  "\<exists>f. export_csv_raw_runs (spec_engine demo_dynamics) (\<lambda>n. ''20260128_101939'') None demo_week1
         = (None, demo_week1\<lparr>written := written demo_week1 @ [f]\<rparr>)
     \<and> fst f = ''sim_results/standard_prep10_weeks1_nodes3_netseed67_iters2_RAW__20260128_101939.csv''"
proof -
  let ?E = "spec_engine demo_dynamics"
  let ?now = "\<lambda>n::nat. ''20260128_101939''"
  from export_paths_distinct [of ?E ?now None demo_week1] obtain f where
    ex: "export_csv_raw_runs ?E ?now None demo_week1
           = (None, demo_week1\<lparr>written := written demo_week1 @ [f]\<rparr>)"
    and nm: "fst f = path_join ''sim_results''
           (mode_var demo_week1 @ ''_prep'' @ str_int (prep_pct_of (prep_amount_input demo_week1))
              @ ''_weeks'' @ str_int (t demo_week1) @ ''_nodes'' @ str_int (num_nodes_input demo_week1)
              @ ''_netseed'' @ str_int (network_seed_input demo_week1)
              @ ''_iters'' @ str_int (iterations_input demo_week1)
              @ ''_RAW__'' @ ''20260128_101939'' @ ''.csv'')"
    by auto
  have "path_join ''sim_results''
           (mode_var demo_week1 @ ''_prep'' @ str_int (prep_pct_of (prep_amount_input demo_week1))
              @ ''_weeks'' @ str_int (t demo_week1) @ ''_nodes'' @ str_int (num_nodes_input demo_week1)
              @ ''_netseed'' @ str_int (network_seed_input demo_week1)
              @ ''_iters'' @ str_int (iterations_input demo_week1)
              @ ''_RAW__'' @ ''20260128_101939'' @ ''.csv'')
      = ''sim_results/standard_prep10_weeks1_nodes3_netseed67_iters2_RAW__20260128_101939.csv''"
    by code_simp
  with ex nm show ?thesis by (intro exI [of _ f]) simp
qed

section \<open>Claims about the engine's snapshots\<close>






lemma KEYS_nth:
  "KEYS ! 0 = ''susceptible''" "KEYS ! 1 = ''acute''" "KEYS ! 2 = ''chronic''"
  "KEYS ! 3 = ''aids''" "KEYS ! 4 = ''dead''"
  by (simp_all add: KEYS_def)








section \<open>Claims about the plotted statistics\<close>

lemma lerp_at_bounds:
  assumes srt: "sorted s" and ne: "s \<noteq> []" and h0: "0 \<le> h" and hn: "h \<le> of_nat (length s - 1)"
  shows "s ! nat \<lfloor>h\<rfloor> \<le> lerp_at s h"
    and "lerp_at s h \<le> s ! min (nat \<lfloor>h\<rfloor> + 1) (length s - 1)"
proof -
  let ?i = "nat \<lfloor>h\<rfloor>"
  let ?j = "min (?i + 1) (length s - 1)"
  let ?g = "h - of_nat ?i"
  from h0 have fl: "of_nat ?i = (of_int \<lfloor>h\<rfloor> :: rat)" by simp
  have g0: "0 \<le> ?g" using fl by (simp add: of_int_floor_le)
  have g1: "?g \<le> 1" using fl floor_correct [of h] by simp
  from hn have "\<lfloor>h\<rfloor> \<le> int (length s - 1)" by (simp add: floor_le_iff)
  then have i: "?i \<le> length s - 1" by simp
  with ne have il: "?i < length s" by (cases s) simp_all
  have jl: "?j < length s" using ne by (cases s) simp_all
  have ij: "?i \<le> ?j" using i by simp
  from sorted_nth_mono [OF srt ij jl] have le: "s ! ?i \<le> s ! ?j" .
  have eq: "lerp_at s h = s ! ?i + (s ! ?j - s ! ?i) * ?g" by (simp add: lerp_at_def Let_def)
  from le g0 have "0 \<le> (s ! ?j - s ! ?i) * ?g" by simp
  with eq show "s ! ?i \<le> lerp_at s h" by simp
  from le g1 have "(s ! ?j - s ! ?i) * ?g \<le> (s ! ?j - s ! ?i) * 1"
    by (intro mult_left_mono) simp_all
  with eq show "lerp_at s h \<le> s ! ?j" by simp
qed

lemma lerp_at_mono:
  assumes srt: "sorted s" and ne: "s \<noteq> []" and h0: "0 \<le> h" and hh: "h \<le> h'"
    and hn: "h' \<le> of_nat (length s - 1)"
  shows "lerp_at s h \<le> lerp_at s h'"
proof (cases "\<lfloor>h\<rfloor> = \<lfloor>h'\<rfloor>")
  case True
  let ?i = "nat \<lfloor>h\<rfloor>"
  let ?j = "min (?i + 1) (length s - 1)"
  from hn hh have "\<lfloor>h\<rfloor> \<le> int (length s - 1)" by (simp add: floor_le_iff)
  then have i: "?i \<le> length s - 1" by simp
  have jl: "?j < length s" using ne by (cases s) simp_all
  have ij: "?i \<le> ?j" using i by simp
  from sorted_nth_mono [OF srt ij jl] have le: "s ! ?i \<le> s ! ?j" .
  have "lerp_at s h' - lerp_at s h = (s ! ?j - s ! ?i) * (h' - h)"
    using True by (simp add: lerp_at_def Let_def algebra_simps)
  moreover from le hh have "0 \<le> (s ! ?j - s ! ?i) * (h' - h)" by simp
  ultimately show ?thesis by simp
next
  case False
  from hh have "\<lfloor>h\<rfloor> \<le> \<lfloor>h'\<rfloor>" by (rule floor_mono)
  with False have lt: "\<lfloor>h\<rfloor> < \<lfloor>h'\<rfloor>" by simp
  from h0 have f0: "0 \<le> \<lfloor>h\<rfloor>" by simp
  from hh h0 have h0': "0 \<le> h'" by simp
  from hn have "\<lfloor>h'\<rfloor> \<le> int (length s - 1)" by (simp add: floor_le_iff)
  then have i': "nat \<lfloor>h'\<rfloor> \<le> length s - 1" by simp
  with ne have il': "nat \<lfloor>h'\<rfloor> < length s" by (cases s) simp_all
  from lt f0 have "nat \<lfloor>h\<rfloor> + 1 \<le> nat \<lfloor>h'\<rfloor>" by linarith
  with i' have "min (nat \<lfloor>h\<rfloor> + 1) (length s - 1) \<le> nat \<lfloor>h'\<rfloor>" by simp
  from sorted_nth_mono [OF srt this il']
  have mid: "s ! min (nat \<lfloor>h\<rfloor> + 1) (length s - 1) \<le> s ! nat \<lfloor>h'\<rfloor>" .
  from hh hn have hn1: "h \<le> of_nat (length s - 1)" by simp
  from lerp_at_bounds(2) [OF srt ne h0 hn1] mid lerp_at_bounds(1) [OF srt ne h0' hn]
  show ?thesis by simp
qed

lemma np_median_as_quantile:
  assumes "xs \<noteq> []"
  shows "np_median xs = np_quantile xs (1 / 2)"
proof -
  let ?s = "sort xs"
  let ?n = "length xs"
  from assms have n: "0 < ?n" by simp
  show ?thesis
  proof (cases "odd ?n")
    case True
    then obtain k where k: "?n = 2 * k + 1" by (auto elim: oddE)
    then have h: "(1 / 2 :: rat) * of_nat (?n - 1) = of_nat k" by simp
    have "np_quantile xs (1 / 2) = ?s ! k"
      unfolding np_quantile_def h by (simp add: lerp_at_def Let_def)
    moreover have "np_median xs = ?s ! k" using k by (simp add: np_median_def Let_def)
    ultimately show ?thesis by simp
  next
    case False
    then obtain m where m: "?n = 2 * m" by (auto elim: evenE)
    with n have "0 < m" by simp
    then obtain k where "m = k + 1" by (metis Suc_eq_plus1 gr0_implies_Suc)
    with m have k: "?n = 2 * (k + 1)" by simp
    then have h: "(1 / 2 :: rat) * of_nat (?n - 1) = of_nat k + 1 / 2" by simp
    have fl: "\<lfloor>of_nat k + 1 / 2 :: rat\<rfloor> = int k" by (simp add: floor_unique)
    have "np_quantile xs (1 / 2) = ?s ! k + (?s ! (k + 1) - ?s ! k) * (1 / 2)"
      unfolding np_quantile_def h using k by (simp add: lerp_at_def Let_def fl)
    moreover have "np_median xs = (?s ! k + ?s ! (k + 1)) / 2"
      using k by (simp add: np_median_def Let_def)
    ultimately show ?thesis by (simp add: field_simps)
  qed
qed

lemma np_quantile_mono:
  assumes "xs \<noteq> []" "0 \<le> q" "q \<le> q'" "q' \<le> 1"
  shows "np_quantile xs q \<le> np_quantile xs q'"
  unfolding np_quantile_def
proof (rule lerp_at_mono)
  show "sorted (sort xs)" by simp
  show "sort xs \<noteq> []" using assms(1) by (metis length_0_conv length_sort)
  show "0 \<le> q * of_nat (length xs - 1)" using assms(2) by simp
  show "q * of_nat (length xs - 1) \<le> q' * of_nat (length xs - 1)"
    using assms(3) by (simp add: mult_right_mono)
  have "q' * of_nat (length xs - 1) \<le> 1 * of_nat (length xs - 1)"
    using assms(4) by (intro mult_right_mono) simp_all
  then show "q' * of_nat (length xs - 1) \<le> of_nat (length (sort xs) - 1)" by simp
qed

lemma quartiles_bracket_median:
  assumes "xs \<noteq> []"
  shows "np_quantile xs (1 / 4) \<le> np_median xs \<and> np_median xs \<le> np_quantile xs (3 / 4)"
  using np_quantile_mono [OF assms, of "1 / 4" "1 / 2"] np_quantile_mono [OF assms, of "1 / 2" "3 / 4"]
    np_median_as_quantile [OF assms] by simp



lemma collect_map_Inr_cong:
  assumes "\<And>x. x \<in> set xs \<Longrightarrow> f x = Inr (g x)"
  shows "collect (map f xs) = Inr (map g xs)"
proof -
  from assms have "map f xs = map (Inr \<circ> g) xs" by simp
  then show ?thesis by (simp only: collect_map_Inr_comp)
qed

lemma plot_vals_eq:
  assumes len: "\<forall>r\<in>set runs. T \<le> length r"
    and keys: "\<forall>r\<in>set runs. \<forall>w<T. (r ! w) key \<noteq> None"
  shows "plot_vals runs T key
       = Inr (map (\<lambda>r. map (\<lambda>w. of_int (the ((r ! w) key))) [0..<T]) runs)"
  unfolding plot_vals_def
proof (rule collect_map_Inr_cong)
  fix r assume r: "r \<in> set runs"
  show "collect (map (\<lambda>w. case py_index r (int w) of Inl e \<Rightarrow> Inl e
            | Inr d \<Rightarrow> (case dict_item d key of Inl e \<Rightarrow> Inl e | Inr v \<Rightarrow> Inr (of_int v)))
          [0..<T])
      = Inr (map (\<lambda>w. of_int (the ((r ! w) key))) [0..<T])"
  proof (rule collect_map_Inr_cong)
    fix w assume "w \<in> set [0..<T]"
    then have w: "w < T" by simp
    with len r have "w < length r" by fastforce
    then have ix: "py_index r (int w) = Inr (r ! w)" by (simp add: py_index_def)
    from keys r w obtain v where "(r ! w) key = Some v" by fastforce
    with ix show "(case py_index r (int w) of Inl e \<Rightarrow> Inl e
            | Inr d \<Rightarrow> (case dict_item d key of Inl e \<Rightarrow> Inl e | Inr v \<Rightarrow> Inr (of_int v)))
        = Inr (of_int (the ((r ! w) key)))"
      by (simp add: dict_item_def)
  qed
qed

lemma plot_key_eq:
  assumes len: "\<forall>r\<in>set runs. T \<le> length r"
    and keys: "\<forall>r\<in>set runs. \<forall>w<T. (r ! w) key \<noteq> None"
  shows "plot_key runs T key
       = Inr \<lparr> series_key = key,
               timesteps = [0..<T],
               median_line = map (\<lambda>w. np_median (counts_at runs key w)) [0..<T],
               band_low = map (\<lambda>w. np_quantile (counts_at runs key w) (1 / 4)) [0..<T],
               band_high = map (\<lambda>w. np_quantile (counts_at runs key w) (3 / 4)) [0..<T] \<rparr>"
proof -
  let ?vals = "map (\<lambda>r. map (\<lambda>w. of_int (the ((r ! w) key))) [0..<T]) runs :: rat list list"
  have col: "map (\<lambda>row. row ! w) ?vals = counts_at runs key w" if "w < T" for w
    using that by (simp add: counts_at_def comp_def)
  have med: "map (\<lambda>w. np_median (map (\<lambda>row. row ! w) ?vals)) [0..<T]
      = map (\<lambda>w. np_median (counts_at runs key w)) [0..<T]"
    by (rule map_cong) (simp_all add: col del: map_map)
  have lo: "map (\<lambda>w. np_quantile (map (\<lambda>row. row ! w) ?vals) (1 / 4)) [0..<T]
      = map (\<lambda>w. np_quantile (counts_at runs key w) (1 / 4)) [0..<T]"
    by (rule map_cong) (simp_all add: col del: map_map)
  have hi: "map (\<lambda>w. np_quantile (map (\<lambda>row. row ! w) ?vals) (3 / 4)) [0..<T]
      = map (\<lambda>w. np_quantile (counts_at runs key w) (3 / 4)) [0..<T]"
    by (rule map_cong) (simp_all add: col del: map_map)
  show ?thesis
    unfolding plot_key_def plot_vals_eq [OF len keys] sum.case med lo hi ..
qed

lemma min_list_le:
  assumes "x \<in> set xs"
  shows "min_list xs \<le> (x :: nat)"
proof -
  from assms have "xs \<noteq> []" by auto
  then have "min_list xs = Min (set xs)" by (rule min_list_Min)
  with assms show ?thesis by simp
qed

lemma min_list_pos:
  assumes "xs \<noteq> []" "\<forall>x\<in>set xs. 0 < (x :: nat)"
  shows "0 < min_list xs"
proof -
  from assms(1) have "min_list xs = Min (set xs)" by (rule min_list_Min)
  moreover from assms(1) have "Min (set xs) \<in> set xs" by (intro Min_in) simp_all
  ultimately show ?thesis using assms(2) by simp
qed

text \<open>
  C8. For an ensemble of runs that have all recorded at least one week and hold every
  plotted key, \<open>plot_states\<close> draws for every key, over the weeks all runs have recorded,
  the median across the runs of that state's counts and the band from their 0.25 quantile
  to their 0.75 quantile. The band encloses the median, which is the 0.5 quantile.
  \<open>plot_states\<close> is a function of the histories alone: it returns the series and
  neither a run nor a session.
\<close>

theorem plot_states_statistics:
  assumes ne: "runs \<noteq> []"
    and weeks: "\<forall>r\<in>set runs. r \<noteq> []"
    and keys: "\<forall>r\<in>set runs. \<forall>d\<in>set r. \<forall>k\<in>set keys. d k \<noteq> None"
  shows "plot_states (ManyRuns runs) keys
           = Inr (map (\<lambda>key.
                \<lparr> series_key = key,
                  timesteps = [0..<min_list (map length runs)],
                  median_line = map (\<lambda>w. np_median (counts_at runs key w))
                                    [0..<min_list (map length runs)],
                  band_low = map (\<lambda>w. np_quantile (counts_at runs key w) (1 / 4))
                                 [0..<min_list (map length runs)],
                  band_high = map (\<lambda>w. np_quantile (counts_at runs key w) (3 / 4))
                                  [0..<min_list (map length runs)] \<rparr>) keys)
       \<and> (\<forall>key w. np_quantile (counts_at runs key w) (1 / 4) \<le> np_median (counts_at runs key w)
                  \<and> np_median (counts_at runs key w) \<le> np_quantile (counts_at runs key w) (3 / 4)
                  \<and> np_median (counts_at runs key w) = np_quantile (counts_at runs key w) (1 / 2))"
proof
  let ?T = "min_list (map length runs)"
  have len: "\<forall>r\<in>set runs. ?T \<le> length r" by (simp add: min_list_le)
  have pos: "0 < ?T" using ne weeks by (intro min_list_pos) simp_all
  have k: "\<forall>r\<in>set runs. \<forall>w<?T. (r ! w) key \<noteq> None" if "key \<in> set keys" for key
  proof (intro ballI allI impI)
    fix r w assume r: "r \<in> set runs" and w: "w < ?T"
    with len have "w < length r" by fastforce
    then have "r ! w \<in> set r" by simp
    with keys r that show "(r ! w) key \<noteq> None" by blast
  qed
  have "collect (map (plot_key runs ?T) keys)
      = Inr (map (\<lambda>key.
                \<lparr> series_key = key, timesteps = [0..<?T],
                  median_line = map (\<lambda>w. np_median (counts_at runs key w)) [0..<?T],
                  band_low = map (\<lambda>w. np_quantile (counts_at runs key w) (1 / 4)) [0..<?T],
                  band_high = map (\<lambda>w. np_quantile (counts_at runs key w) (3 / 4)) [0..<?T] \<rparr>)
             keys)"
    by (rule collect_map_Inr_cong) (simp add: plot_key_eq [OF len k])
  with ne pos show "plot_states (ManyRuns runs) keys
           = Inr (map (\<lambda>key.
                \<lparr> series_key = key, timesteps = [0..<?T],
                  median_line = map (\<lambda>w. np_median (counts_at runs key w)) [0..<?T],
                  band_low = map (\<lambda>w. np_quantile (counts_at runs key w) (1 / 4)) [0..<?T],
                  band_high = map (\<lambda>w. np_quantile (counts_at runs key w) (3 / 4)) [0..<?T] \<rparr>)
             keys)"
    by (simp add: plot_states_def Let_def)
next
  have "counts_at runs key w \<noteq> []" for key w using ne by (simp add: counts_at_def)
  then show "\<forall>key w. np_quantile (counts_at runs key w) (1 / 4) \<le> np_median (counts_at runs key w)
                  \<and> np_median (counts_at runs key w) \<le> np_quantile (counts_at runs key w) (3 / 4)
                  \<and> np_median (counts_at runs key w) = np_quantile (counts_at runs key w) (1 / 2)"
    using quartiles_bracket_median np_median_as_quantile by blast
qed

theorem plot_states_statistics_witness:
  "plot_states (ManyRuns [[[''acute'' \<mapsto> 1], [''acute'' \<mapsto> 5]], [[''acute'' \<mapsto> 4], [''acute'' \<mapsto> 5]],
                          [[''acute'' \<mapsto> 2], [''acute'' \<mapsto> 9], [''acute'' \<mapsto> 9]]]) [''acute'']
     = Inr [\<lparr> series_key = ''acute'', timesteps = [0, 1], median_line = [2, 5],
              band_low = [3 / 2, 5], band_high = [3, 7] \<rparr>]"
proof -
  let ?runs = "[[[''acute'' \<mapsto> 1], [''acute'' \<mapsto> 5]], [[''acute'' \<mapsto> 4], [''acute'' \<mapsto> 5]],
                [[''acute'' \<mapsto> 2], [''acute'' \<mapsto> 9], [''acute'' \<mapsto> 9]]] :: snapshot list list"
  have ne: "?runs \<noteq> []" by simp
  have weeks: "\<forall>r\<in>set ?runs. r \<noteq> []" by simp
  have keys: "\<forall>r\<in>set ?runs. \<forall>d\<in>set r. \<forall>k\<in>set [''acute'']. d k \<noteq> None" by simp
  have T: "min_list (map length ?runs) = 2" by simp
  have c0: "counts_at ?runs ''acute'' 0 = [1, 4, 2]" by (simp add: counts_at_def)
  have c1: "counts_at ?runs ''acute'' 1 = [5, 5, 9]" by (simp add: counts_at_def)
  have m0: "np_median [1, 4, 2] = 2" by code_simp
  have m1: "np_median [5, 5, 9] = 5" by code_simp
  have l0: "np_quantile [1, 4, 2] (1 / 4) = 3 / 2" by code_simp
  have l1: "np_quantile [5, 5, 9] (1 / 4) = 5" by code_simp
  have h0: "np_quantile [1, 4, 2] (3 / 4) = 3" by code_simp
  have h1: "np_quantile [5, 5, 9] (3 / 4) = 7" by code_simp
  have up: "[0..<2] = [0, 1]" by (simp add: upt_rec)
  from plot_states_statistics [OF ne weeks keys, THEN conjunct1]
  show ?thesis
    unfolding T by (simp only: up list.map c0 c1 m0 m1 l0 l1 h0 h1)
qed

end
